theory Spec2Isabelle
  imports Complex_Main "HOL-Library.Monad_Syntax"
begin

section \<open>Numeric conventions\<close>

text \<open>
  The program computes with floating-point numbers; the model computes with exact reals.
  A result of type \<open>real option\<close> is \<open>Some v\<close> when the source yields the real number
  \<open>v\<close>, and \<open>None\<close> for every outcome that is not a real number: a raised exception
  (\<open>IndexError\<close>, \<open>ZeroDivisionError\<close>, \<open>ValueError\<close>, the utility's \<open>DomainError\<close>) or the
  \<open>nan\<close>/\<open>inf\<close> that numpy produces for an undefined operation.
  The one infinity that the source writes down itself (\<open>np.inf\<close> in \<open>Vsigma_Tminus1\<close> and
  \<open>Vsigma_t\<close>) is a value of its own, \<open>Inf\<close>, of the type \<open>foc\<close>.
\<close>

text \<open>\<open>x / y\<close>: division by zero yields no real number.\<close>

definition float_div :: "real \<Rightarrow> real \<Rightarrow> real option" where
  "float_div x y = (if y = 0 then None else Some (x / y))"

text \<open>
  \<open>x ** y\<close>: a positive base has every real power; zero has the powers \<open>0 ** 0 = 1\<close> and
  \<open>0 ** y = 0\<close> for positive \<open>y\<close>; a negative base has integer powers only.
\<close>

definition float_pow :: "real \<Rightarrow> real \<Rightarrow> real option" where
  "float_pow x y =
     (if 0 < x then Some (x powr y)
      else if x = 0 then (if y = 0 then Some 1 else if 0 < y then Some 0 else None)
      else if y = of_int \<lfloor>y\<rfloor> then Some (power_int x \<lfloor>y\<rfloor>)
      else None)"

text \<open>\<open>np.log(x)\<close>.\<close>

definition float_log :: "real \<Rightarrow> real option" where
  "float_log x = (if 0 < x then Some (ln x) else None)"

text \<open>\<open>xs[-1]\<close> and \<open>xs[0]\<close> raise \<open>IndexError\<close> on an empty sequence.\<close>

definition index_last :: "'a list \<Rightarrow> 'a option" where
  "index_last xs = (if xs = [] then None else Some (last xs))"

definition index_first :: "'a list \<Rightarrow> 'a option" where
  "index_first xs = (case xs of [] \<Rightarrow> None | x # _ \<Rightarrow> Some x)"

text \<open>The sum of a sequence of results; it is a real number when every summand is.\<close>

fun sum_results :: "real option list \<Rightarrow> real option" where
  "sum_results [] = Some 0"
| "sum_results (r # rs) = do { v \<leftarrow> r; s \<leftarrow> sum_results rs; Some (v + s) }"

text \<open>Every element of a sequence of results, in order.\<close>

fun all_results :: "'a option list \<Rightarrow> 'a list option" where
  "all_results [] = Some []"
| "all_results (r # rs) = do { v \<leftarrow> r; vs \<leftarrow> all_results rs; Some (v # vs) }"

section \<open>Utility\<close>

record Utility =
  gamma :: real

text \<open>
  Modelled from the spec: the class \<open>Utility\<close> is imported from \<open>Code.Python.resources\<close>,
  which is not among the source files. \<open>prime\<close> is the spec's \<open>marginal(c)\<close>: it returns
  \<open>c^(-\<rho>)\<close> and fails with \<open>DomainError\<close> if \<open>c \<le> 0\<close>.
\<close>

definition prime :: "Utility \<Rightarrow> real \<Rightarrow> real option" where
  "prime ut c = (if c \<le> 0 then None else Some (c powr (- gamma ut)))"

text \<open>
  Modelled from the spec: \<open>inverse_marginal(u)\<close> returns \<open>u^(-1/\<rho>)\<close> and fails with
  \<open>DomainError\<close> if \<open>u \<le> 0\<close>; the quotient \<open>1/\<rho>\<close> does not exist for \<open>\<rho> = 0\<close>.
\<close>

definition inverse_marginal :: "Utility \<Rightarrow> real \<Rightarrow> real option" where
  "inverse_marginal ut v =
     (if v \<le> 0 \<or> gamma ut = 0 then None else Some (v powr (- 1 / gamma ut)))"

section \<open>Discrete approximations\<close>

record DiscreteApproximation =
  X :: "real list"
  pmf :: "real list"

text \<open>
  Modelled from the spec: \<open>DiscreteApproximation\<close> is imported from
  \<open>Code.Python.resources\<close>. \<open>expectation(f)\<close> returns \<open>\<Sum>\<^sub>i probability\<^sub>i \<sqdot> f(value\<^sub>i)\<close>.
\<close>

definition expectation :: "DiscreteApproximation \<Rightarrow> (real \<Rightarrow> real option) \<Rightarrow> real option" where
  "expectation d f =
     sum_results (map (\<lambda>(x, p). map_option (\<lambda>v. p * v) (f x)) (zip (X d) (pmf d)))"

record DiscreteApproximationTwoIndependentDistribs =
  X1 :: "real list"
  pmf1 :: "real list"
  X2 :: "real list"
  pmf2 :: "real list"

text \<open>
  Modelled from the spec: \<open>DiscreteApproximationTwoIndependentDistribs\<close> is imported from
  \<open>Code.Python.resources\<close>. For \<open>f\<close> of two arguments, \<open>E(f)\<close> returns
  \<open>\<Sum>\<^sub>i \<Sum>\<^sub>j p1\<^sub>i \<sqdot> p2\<^sub>j \<sqdot> f(value1\<^sub>i, value2\<^sub>j)\<close>; the first variable is the income shock,
  the second the risky return.
\<close>

definition E :: "DiscreteApproximationTwoIndependentDistribs \<Rightarrow> (real \<Rightarrow> real \<Rightarrow> real option)
    \<Rightarrow> real option" where
  "E d f =
     sum_results (concat (map (\<lambda>(x1, p1).
        map (\<lambda>(x2, p2). map_option (\<lambda>v. p1 * p2 * v) (f x1 x2)) (zip (X2 d) (pmf2 d)))
        (zip (X1 d) (pmf1 d))))"

section \<open>The Gothic class and its portfolio extension\<close>

text \<open>
  The fields that \<open>Gothic.__init__\<close> receives: \<open>Gothic(u, beta, rho, PermGroFac, R, theta)\<close>.
  \<open>Gamma\<close> is the array of growth factors and \<open>Income\<close> the discretised income shock.
\<close>

record Gothic =
  u :: Utility
  beta :: real
  rho :: real
  Gamma :: "real list"
  R :: real
  Income :: DiscreteApproximation

text \<open>\<open>class GothicMC(Gothic)\<close>: the joint distribution and the grid of shares are added.\<close>

record GothicMC = Gothic +
  Distribution :: DiscreteApproximationTwoIndependentDistribs
  share_grid_size :: int
  varsigma_grids :: "real list"

text \<open>
  \<open>np.linspace(0.0, 1.0, n)\<close>: \<open>n\<close> evenly spaced points from 0 to 1; a single point is 0,
  and a negative count is a \<open>ValueError\<close>.
\<close>

definition linspace01 :: "int \<Rightarrow> real list option" where
  "linspace01 n =
     (if n < 0 then None
      else if n = 1 then Some [0]
      else Some (map (\<lambda>i. real i / real (nat n - 1)) [0..<nat n]))"

text \<open>\<open>GothicMC.__init__\<close>.\<close>

definition GothicMC_init :: "Utility \<Rightarrow> real \<Rightarrow> real \<Rightarrow> real list \<Rightarrow> real
    \<Rightarrow> DiscreteApproximationTwoIndependentDistribs \<Rightarrow> int \<Rightarrow> DiscreteApproximation
    \<Rightarrow> GothicMC option" where
  "GothicMC_init ut b r PermGroFac Rfree Distrib n inc =
     do {
       grid \<leftarrow> linspace01 n;
       Some \<lparr> u = ut, beta = b, rho = r, Gamma = PermGroFac, R = Rfree, Income = inc,
              Distribution = Distrib, share_grid_size = n, varsigma_grids = grid \<rparr>
     }"

text \<open>
  Modelled from the spec: \<open>Gamma_to_minusRho\<close> is set by \<open>Gothic.__init__\<close>, which is not
  among the source files; the spec's factor is \<open>growth_factor^(-\<rho>)\<close>, taken elementwise
  over the array of growth factors.
\<close>

definition Gamma_to_minusRho :: "'a Gothic_scheme \<Rightarrow> real option list" where
  "Gamma_to_minusRho g = map (\<lambda>G. float_pow G (- rho g)) (Gamma g)"

text \<open>The value of a first-order condition: a real number or the sentinel \<open>np.inf\<close>.\<close>

datatype foc = Finite real | Inf

fun gt0 :: "foc \<Rightarrow> bool" where
  "gt0 (Finite r) = (0 < r)"
| "gt0 Inf = True"

fun lt0 :: "foc \<Rightarrow> bool" where
  "lt0 (Finite r) = (r < 0)"
| "lt0 Inf = False"

fun le0 :: "foc \<Rightarrow> bool" where
  "le0 (Finite r) = (r \<le> 0)"
| "le0 Inf = False"

fun ge0 :: "foc \<Rightarrow> bool" where
  "ge0 (Finite r) = (0 \<le> r)"
| "ge0 Inf = True"

text \<open>
  \<open>Vsigma_Tminus1(a, varsigma)\<close>: the derivative of the end-of-period value with respect
  to the share, in the last period.
\<close>

definition Vsigma_Tminus1 :: "GothicMC \<Rightarrow> real \<Rightarrow> real \<Rightarrow> foc option" where
  "Vsigma_Tminus1 g a varsigma =
     (if a \<noteq> 0 then
        do {
          G \<leftarrow> index_last (Gamma g);
          q \<leftarrow> float_div (beta g * a) G;
          ev \<leftarrow> E (Distribution g) (\<lambda>tinc_shk rreturn.
                 do {
                   x \<leftarrow> float_div ((R g + (rreturn - R g) * varsigma) * a) G;
                   up \<leftarrow> prime (u g) (x + tinc_shk);
                   Some ((rreturn - R g) * up)
                 });
          Some (Finite (q * ev))
        }
      else Some Inf)"

text \<open>\<open>Vsigma_t(a, varsigma, c_prime)\<close>: the same in all earlier periods.\<close>

definition Vsigma_t :: "GothicMC \<Rightarrow> real \<Rightarrow> real \<Rightarrow> (real \<Rightarrow> real) \<Rightarrow> foc option" where
  "Vsigma_t g a varsigma c_prime =
     (if a \<noteq> 0 then
        do {
          G \<leftarrow> index_last (Gamma g);
          q \<leftarrow> float_div (beta g * a) G;
          ev \<leftarrow> E (Distribution g) (\<lambda>tinc_shk rreturn.
                 do {
                   x \<leftarrow> float_div ((R g + (rreturn - R g) * varsigma) * a) G;
                   up \<leftarrow> prime (u g) (c_prime (x + tinc_shk));
                   Some ((rreturn - R g) * up)
                 });
          Some (Finite (q * ev))
        }
      else Some Inf)"

text \<open>\<open>np.argwhere(crossing)[0]\<close>: the first index that holds; \<open>IndexError\<close> if none does.\<close>

fun argwhere_first :: "bool list \<Rightarrow> nat option" where
  "argwhere_first [] = None"
| "argwhere_first (b # bs) = (if b then Some 0 else map_option Suc (argwhere_first bs))"

text \<open>
  \<open>alpha = 1.0 - top_f / (top_f - bot_f)\<close>. Equal values give \<open>0/0\<close> or a division of a
  non-zero number by zero, neither of which is a real number; against an infinite
  \<open>bot_f\<close> the quotient is zero.
\<close>

fun interp_alpha :: "foc \<Rightarrow> foc \<Rightarrow> real option" where
  "interp_alpha (Finite top_f) (Finite bot_f) =
     (if top_f - bot_f = 0 then None else Some (1 - top_f / (top_f - bot_f)))"
| "interp_alpha (Finite top_f) Inf = Some 1"
| "interp_alpha Inf bot_f = None"

text \<open>
  The part that \<open>varsigma_Tminus1\<close> and \<open>varsigma_t\<close> share word for word: the choice
  of the share from the array \<open>FOC_s\<close>, which has one entry for each point of \<open>share_girds\<close>.
\<close>

definition find_optimal_share :: "real \<Rightarrow> real list \<Rightarrow> foc list \<Rightarrow> real option" where
  "find_optimal_share a share_girds FOC_s =
     (if a < 0 then Some 0
      else
        do {
          f_last \<leftarrow> index_last FOC_s;
          if gt0 f_last then Some 1
          else
            do {
              f_first \<leftarrow> index_first FOC_s;
              if lt0 f_first then Some 0
              else
                do {
                  idx \<leftarrow> argwhere_first
                           (map2 (\<lambda>hi lo. le0 hi \<and> ge0 lo) (tl FOC_s) (butlast FOC_s));
                  let bot_s = share_girds ! idx;
                      top_s = share_girds ! (idx + 1);
                      bot_f = FOC_s ! idx;
                      top_f = FOC_s ! (idx + 1)
                  in do {
                       alpha \<leftarrow> interp_alpha top_f bot_f;
                       Some ((1 - alpha) * bot_s + alpha * top_s)
                     }
                }
            }
        })"

text \<open>\<open>varsigma_Tminus1(a)\<close>: the array of first-order conditions is filled first.\<close>

definition varsigma_Tminus1 :: "GothicMC \<Rightarrow> real \<Rightarrow> real option" where
  "varsigma_Tminus1 g a =
     do {
       FOC_s \<leftarrow> all_results (map (\<lambda>s. Vsigma_Tminus1 g a s) (varsigma_grids g));
       find_optimal_share a (varsigma_grids g) FOC_s
     }"

definition varsigma_t :: "GothicMC \<Rightarrow> real \<Rightarrow> (real \<Rightarrow> real) \<Rightarrow> real option" where
  "varsigma_t g a c_prime =
     do {
       FOC_s \<leftarrow> all_results (map (\<lambda>s. Vsigma_t g a s c_prime) (varsigma_grids g));
       find_optimal_share a (varsigma_grids g) FOC_s
     }"

text \<open>\<open>Va_Tminus1(a)\<close>: the derivative with respect to \<open>a\<close> at the optimal share.\<close>

definition Va_Tminus1 :: "GothicMC \<Rightarrow> real \<Rightarrow> real option" where
  "Va_Tminus1 g a =
     do {
       varsigma_opt \<leftarrow> varsigma_Tminus1 g a;
       G \<leftarrow> index_last (Gamma g);
       gmr \<leftarrow> Option.bind (index_last (Gamma_to_minusRho g)) id;
       ev \<leftarrow> E (Distribution g) (\<lambda>tinc_shk rreturn.
              do {
                x \<leftarrow> float_div ((R g + (rreturn - R g) * varsigma_opt) * a) G;
                up \<leftarrow> prime (u g) (x + tinc_shk);
                Some ((R g + (rreturn - R g) * varsigma_opt) * up)
              });
       Some (beta g * gmr * ev)
     }"

definition Va_t :: "GothicMC \<Rightarrow> real \<Rightarrow> (real \<Rightarrow> real) \<Rightarrow> real option" where
  "Va_t g a c_prime =
     do {
       varsigma_opt \<leftarrow> varsigma_t g a c_prime;
       G \<leftarrow> index_last (Gamma g);
       gmr \<leftarrow> Option.bind (index_last (Gamma_to_minusRho g)) id;
       ev \<leftarrow> E (Distribution g) (\<lambda>tinc_shk rreturn.
              do {
                x \<leftarrow> float_div ((R g + (rreturn - R g) * varsigma_opt) * a) G;
                up \<leftarrow> prime (u g) (c_prime (x + tinc_shk));
                Some ((R g + (rreturn - R g) * varsigma_opt) * up)
              });
       Some (beta g * gmr * ev)
     }"

text \<open>
  \<open>C_Tminus1(a) = Va_Tminus1(a) ** (-1.0 / rho)\<close> and
  \<open>C_t(a, c_prime) = Va_t(a, c_prime) ** (-1.0 / rho)\<close>.
\<close>

definition C_Tminus1 :: "GothicMC \<Rightarrow> real \<Rightarrow> real option" where
  "C_Tminus1 g a =
     do {
       va \<leftarrow> Va_Tminus1 g a;
       e \<leftarrow> float_div (- 1) (rho g);
       float_pow va e
     }"

definition C_t :: "GothicMC \<Rightarrow> real \<Rightarrow> (real \<Rightarrow> real) \<Rightarrow> real option" where
  "C_t g a c_prime =
     do {
       va \<leftarrow> Va_t g a c_prime;
       e \<leftarrow> float_div (- 1) (rho g);
       float_pow va e
     }"

text \<open>
  Modelled from the spec: the base class \<open>Gothic\<close> is imported from
  \<open>Code.Python.gothic_class\<close>, which is not among the source files.
  \<open>expected_marginal_value(a, c_next_or_none)\<close> is
  \<open>discount \<sqdot> gross_return \<sqdot> growth_factor^(-\<rho>) \<sqdot> expectation(\<theta> \<mapsto> marginal_next(...))\<close>, where
  the marginal utility is taken at \<open>gross_return/growth_factor \<sqdot> a + \<theta>\<close> when \<open>c_next\<close>
  is absent and at \<open>c_next(gross_return \<sqdot> a/growth_factor + \<theta>)\<close> when it is present. The
  growth factor is the last entry of \<open>Gamma\<close>, the entry that the subclass reads.
\<close>

definition expected_marginal_value :: "'a Gothic_scheme \<Rightarrow> real \<Rightarrow> (real \<Rightarrow> real) option
    \<Rightarrow> real option" where
  "expected_marginal_value g a c_next_or_none =
     do {
       growth_factor \<leftarrow> index_last (Gamma g);
       gmr \<leftarrow> float_pow growth_factor (- rho g);
       ev \<leftarrow> expectation (Income g) (\<lambda>\<theta>.
              case c_next_or_none of
                None \<Rightarrow> do {
                  q \<leftarrow> float_div (R g) growth_factor;
                  prime (u g) (q * a + \<theta>)
                }
              | Some c_next \<Rightarrow> do {
                  q \<leftarrow> float_div (R g * a) growth_factor;
                  prime (u g) (c_next (q + \<theta>))
                });
       Some (beta g * R g * gmr * ev)
     }"

text \<open>
  Modelled from the spec: \<open>implied_consumption(a, c_next_or_none)\<close> returns
  \<open>utility.inverse_marginal(expected_marginal_value(a, c_next_or_none))\<close>.
\<close>

definition implied_consumption :: "'a Gothic_scheme \<Rightarrow> real \<Rightarrow> (real \<Rightarrow> real) option
    \<Rightarrow> real option" where
  "implied_consumption g a c_next_or_none =
     do {
       v \<leftarrow> expected_marginal_value g a c_next_or_none;
       inverse_marginal (u g) v
     }"

text \<open>
  The two methods of \<open>Gothic\<close> that the solver calls: \<open>gothic.C_Tminus1(a)\<close> is the implied
  consumption with no next-period policy, \<open>gothic.C_t(a, cFunc)\<close> the one against \<open>cFunc\<close>.
\<close>

definition Gothic_C_Tminus1 :: "'a Gothic_scheme \<Rightarrow> real \<Rightarrow> real option" where
  "Gothic_C_Tminus1 g a = implied_consumption g a None"

definition Gothic_C_t :: "'a Gothic_scheme \<Rightarrow> real \<Rightarrow> (real \<Rightarrow> real) \<Rightarrow> real option" where
  "Gothic_C_t g a c_prime = implied_consumption g a (Some c_prime)"

section \<open>Piecewise-linear policy functions\<close>

record Spline =
  knots_x :: "real list"
  knots_y :: "real list"

text \<open>
  Modelled from the spec: \<open>InterpolatedUnivariateSpline(x, y, k=1)\<close> is scipy's. It is the
  spec's \<open>PolicyFunction\<close>: an ordered sequence of knot pairs, the state strictly
  increasing; a fit needs two knots at least and as many values as states.
\<close>

definition InterpolatedUnivariateSpline :: "real list \<Rightarrow> real list \<Rightarrow> Spline option" where
  "InterpolatedUnivariateSpline xs ys =
     (if length xs = length ys \<and> 2 \<le> length xs \<and> sorted_wrt (<) xs
      then Some \<lparr> knots_x = xs, knots_y = ys \<rparr> else None)"

text \<open>
  Modelled from the spec: the policy is evaluated by linear interpolation inside the knot
  range and by linear extrapolation, with the slope of the nearest segment, outside it.
\<close>

fun piecewise_linear :: "real list \<Rightarrow> real list \<Rightarrow> real \<Rightarrow> real" where
  "piecewise_linear (x0 # x1 # xs) (y0 # y1 # ys) x =
     (if x \<le> x1 \<or> xs = [] then y0 + (y1 - y0) * (x - x0) / (x1 - x0)
      else piecewise_linear (x1 # xs) (y1 # ys) x)"
| "piecewise_linear _ _ x = 0"

definition spline_call :: "Spline \<Rightarrow> real \<Rightarrow> real" where
  "spline_call s x = piecewise_linear (knots_x s) (knots_y s) x"

section \<open>The grid of assets\<close>

text \<open>
  \<open>while i <= timestonest: gMaxNested = np.log(gMaxNested + 1)\<close>, for the iterations that
  are left.
\<close>

fun nest_log :: "nat \<Rightarrow> real \<Rightarrow> real option" where
  "nest_log 0 gMaxNested = Some gMaxNested"
| "nest_log (Suc n) gMaxNested = do { l \<leftarrow> float_log (gMaxNested + 1); nest_log n l }"

text \<open>
  \<open>for i in range(2, timestonest + 1): points[size - j] = np.exp(points[size - j]) - 1\<close>,
  for the iterations that are left, on the entry being filled.
\<close>

fun nest_exp :: "nat \<Rightarrow> real \<Rightarrow> real" where
  "nest_exp 0 p = p"
| "nest_exp (Suc n) p = nest_exp n (exp p - 1)"

text \<open>The loop \<open>for j in range(1, size + 1)\<close> over the state \<open>(point, points)\<close>.\<close>

fun fill_points :: "nat \<Rightarrow> nat \<Rightarrow> real \<Rightarrow> nat list \<Rightarrow> real \<times> real list \<Rightarrow> real \<times> real list" where
  "fill_points sz timestonest index [] st = st"
| "fill_points sz timestonest index (j # js) (point, points) =
     fill_points sz timestonest index js
       (point - index, points[sz - j := nest_exp (timestonest - 1) (exp point - 1)])"

text \<open>
  \<open>setup_grids_expMult(minval, maxval, size, timestonest=20)\<close>. \<open>np.empty(size)\<close> is an
  array of \<open>size\<close> entries, each of which the loop overwrites; a negative \<open>size\<close> is a
  \<open>ValueError\<close>. For \<open>size = 0\<close> the quotient \<open>index\<close> is not a number and is never used: the
  result is the empty array (with \<open>timestonest = 0\<close> the division is Python's own and
  raises).
\<close>

definition setup_grids_expMult :: "real \<Rightarrow> real \<Rightarrow> int \<Rightarrow> nat \<Rightarrow> real list option" where
  "setup_grids_expMult minval maxval sz timestonest =
     do {
       gMaxNested \<leftarrow> nest_log timestonest maxval;
       if sz < 0 then None
       else if sz = 0 then (if timestonest = 0 then None else Some [])
       else
         let index = gMaxNested / real_of_int sz;
             points = replicate (nat sz) 0
         in Some (snd (fill_points (nat sz) timestonest index [1..<nat sz + 1]
                         (gMaxNested, points)))
     }"

section \<open>The backward-induction solver\<close>

text \<open>
  \<open>self_a_min = -min(theta.X) * PermGroFac[0] / R\<close>, from the shock, the growth factors and
  the return that the \<open>Gothic\<close> instance is built from.
\<close>

definition self_a_min :: "'a Gothic_scheme \<Rightarrow> real option" where
  "self_a_min g =
     (if X (Income g) = [] then None
      else do {
        G \<leftarrow> index_first (Gamma g);
        float_div (- min_list (X (Income g)) * G) (R g)
      })"

text \<open>
  The sweep over the grid, which the terminal period and the loop over the earlier periods
  repeat word for word; \<open>C\<close> is \<open>gothic.C_Tminus1\<close> in the former and
  \<open>gothic.C_t(\<cdot>, cFunc)\<close> in the latter:
  \<^verbatim>\<open>
  for a in aVec_eee:
      c = C(a)
      m = c + a
      if constrained:
          c = np.minimum(c, m)
      cVec.append(c)
      mVec.append(m)
  \<close>
\<close>

fun sweep :: "(real \<Rightarrow> real option) \<Rightarrow> bool \<Rightarrow> real list \<Rightarrow> real list \<times> real list
    \<Rightarrow> (real list \<times> real list) option" where
  "sweep C constrained [] (cVec, mVec) = Some (cVec, mVec)"
| "sweep C constrained (a # as) (cVec, mVec) =
     (case C a of
        None \<Rightarrow> None
      | Some c \<Rightarrow>
          let m = c + a;
              c' = (if constrained then min c m else c)
          in sweep C constrained as (cVec @ [c'], mVec @ [m]))"

text \<open>
  The knots of one period: the first knot, then the sweep.
  \<^verbatim>\<open>
  cVec = [0.0]
  mVec = [self_a_min]
  if constrained and self_a_min < 0:
      mVec = [0.0]
  \<close>
\<close>

definition period_knots :: "(real \<Rightarrow> real option) \<Rightarrow> bool \<Rightarrow> real \<Rightarrow> real list
    \<Rightarrow> (real list \<times> real list) option" where
  "period_knots C constrained a_min aVec_eee =
     (let cVec = [0];
          mVec = (if constrained \<and> a_min < 0 then [0] else [a_min])
      in sweep C constrained aVec_eee (cVec, mVec))"

text \<open>\<open>cFunc = InterpolatedUnivariateSpline(mVec, cVec, k=1)\<close> on the knots of the period.\<close>

definition solve_period :: "(real \<Rightarrow> real option) \<Rightarrow> bool \<Rightarrow> real \<Rightarrow> real list
    \<Rightarrow> Spline option" where
  "solve_period C constrained a_min aVec_eee =
     do {
       (cVec, mVec) \<leftarrow> period_knots C constrained a_min aVec_eee;
       InterpolatedUnivariateSpline mVec cVec
     }"

text \<open>
  A Python dictionary, in the order of insertion: \<open>d[k] = v\<close> replaces the value of a key
  that is present and adds a new key at the end.
\<close>

fun dict_set :: "('k \<times> 'v) list \<Rightarrow> 'k \<Rightarrow> 'v \<Rightarrow> ('k \<times> 'v) list" where
  "dict_set [] k v = [(k, v)]"
| "dict_set ((k', v') # d) k v =
     (if k' = k then (k, v) # d else (k', v') # dict_set d k v)"

text \<open>
  The loop \<open>for t in range(T - 2, -1, -1)\<close> over the state \<open>(cFunc, cFunc_life)\<close>; the
  first argument that varies is the list of the periods that are left.
\<close>

fun life_cycle_loop :: "'a Gothic_scheme \<Rightarrow> bool \<Rightarrow> real \<Rightarrow> real list \<Rightarrow> int list
    \<Rightarrow> Spline \<times> (int \<times> Spline) list \<Rightarrow> (Spline \<times> (int \<times> Spline) list) option" where
  "life_cycle_loop g constrained a_min aVec_eee [] st = Some st"
| "life_cycle_loop g constrained a_min aVec_eee (t # ts) (cFunc, cFunc_life) =
     (case solve_period (\<lambda>a. Gothic_C_t g a (spline_call cFunc)) constrained a_min aVec_eee of
        None \<Rightarrow> None
      | Some cFunc' \<Rightarrow>
          life_cycle_loop g constrained a_min aVec_eee ts
            (cFunc', dict_set cFunc_life t cFunc'))"

text \<open>\<open>range(hi, lo, -1)\<close>: the integers from \<open>hi\<close> down to, and without, \<open>lo\<close>.\<close>

definition range_down :: "int \<Rightarrow> int \<Rightarrow> int list" where
  "range_down hi lo = rev [lo + 1..hi]"

text \<open>
  The state after the terminal period: \<open>cFunc\<close> is fitted for period \<open>T - 1\<close> and
  \<open>cFunc_life = {T - 1: cFunc}\<close>.
\<close>

definition life_cycle_init :: "'a Gothic_scheme \<Rightarrow> bool \<Rightarrow> int \<Rightarrow> real list
    \<Rightarrow> (real \<times> Spline \<times> (int \<times> Spline) list) option" where
  "life_cycle_init g constrained T aVec_eee =
     do {
       a_min \<leftarrow> self_a_min g;
       cFunc \<leftarrow> solve_period (Gothic_C_Tminus1 g) constrained a_min aVec_eee;
       Some (a_min, cFunc, [(T - 1, cFunc)])
     }"

text \<open>
  The solver, stopped after the first \<open>n\<close> iterations of the backward loop; the state is
  \<open>(cFunc, cFunc_life)\<close>.
\<close>

definition life_cycle_after :: "nat \<Rightarrow> 'a Gothic_scheme \<Rightarrow> bool \<Rightarrow> int \<Rightarrow> real list
    \<Rightarrow> (Spline \<times> (int \<times> Spline) list) option" where
  "life_cycle_after n g constrained T aVec_eee =
     do {
       (a_min, cFunc, cFunc_life) \<leftarrow> life_cycle_init g constrained T aVec_eee;
       life_cycle_loop g constrained a_min aVec_eee (take n (range_down (T - 2) (- 1)))
         (cFunc, cFunc_life)
     }"

text \<open>The whole solver: the dictionary \<open>cFunc_life\<close> when the loop has finished.\<close>

definition solve_life_cycle :: "'a Gothic_scheme \<Rightarrow> bool \<Rightarrow> int \<Rightarrow> real list
    \<Rightarrow> (int \<times> Spline) list option" where
  "solve_life_cycle g constrained T aVec_eee =
     do {
       (a_min, cFunc, cFunc_life) \<leftarrow> life_cycle_init g constrained T aVec_eee;
       (cFunc', cFunc_life') \<leftarrow>
         life_cycle_loop g constrained a_min aVec_eee (range_down (T - 2) (- 1))
           (cFunc, cFunc_life);
       Some cFunc_life'
     }"

section \<open>The backward-induction solver with a portfolio choice\<close>

text \<open>
  The sweep over the grid, which the last period and the loop over the earlier periods
  repeat word for word; \<open>vs\<close> and \<open>C\<close> are \<open>gothicMC.varsigma_Tminus1\<close> and
  \<open>gothicMC.C_Tminus1\<close> in the former, \<open>gothicMC.varsigma_t(\<cdot>, cFunc)\<close> and
  \<open>gothicMC.C_t(\<cdot>, cFunc)\<close> in the latter:
  \<^verbatim>\<open>
  for a in aVec_eee_big:
      varsigma = vs(a)
      c = C(a)
      m = c + a
      c = np.minimum(c, m)
      cVec_port.append(c)
      mVec_port.append(m)
      varsigmaVec_port.append(varsigma)
  \<close>
\<close>

fun sweep_port :: "(real \<Rightarrow> real option) \<Rightarrow> (real \<Rightarrow> real option) \<Rightarrow> real list
    \<Rightarrow> real list \<times> real list \<times> real list \<Rightarrow> (real list \<times> real list \<times> real list) option" where
  "sweep_port vs C [] (cVec_port, mVec_port, varsigmaVec_port) =
     Some (cVec_port, mVec_port, varsigmaVec_port)"
| "sweep_port vs C (a # as) (cVec_port, mVec_port, varsigmaVec_port) =
     (case vs a of
        None \<Rightarrow> None
      | Some varsigma \<Rightarrow>
          (case C a of
             None \<Rightarrow> None
           | Some c \<Rightarrow>
               let m = c + a;
                   c' = min c m
               in sweep_port vs C as
                    (cVec_port @ [c'], mVec_port @ [m], varsigmaVec_port @ [varsigma])))"

text \<open>
  The knots of one period: \<open>cVec_port = [0.0]\<close>, \<open>mVec_port = [0.0]\<close>,
  \<open>varsigmaVec_port = [0.0]\<close>, then the sweep.
\<close>

definition port_period_knots :: "(real \<Rightarrow> real option) \<Rightarrow> (real \<Rightarrow> real option) \<Rightarrow> real list
    \<Rightarrow> (real list \<times> real list \<times> real list) option" where
  "port_period_knots vs C aVec_eee_big = sweep_port vs C aVec_eee_big ([0], [0], [0])"

text \<open>The five dictionaries of the portfolio solver and the current \<open>cFunc\<close>.\<close>

record PortfolioLife =
  cFunc_now :: Spline
  mGridPort_life :: "(int \<times> real list) list"
  cGridPort_life :: "(int \<times> real list) list"
  varsigmaGrid_life :: "(int \<times> real list) list"
  cFuncPort_life :: "(int \<times> Spline) list"
  varsigma_life :: "(int \<times> Spline) list"

text \<open>
  One period: the knots, the two fits (the share's without the first knot:
  \<open>mVec_port[1:]\<close>, \<open>varsigmaVec_port[1:]\<close>) and the entries of period \<open>t\<close> in the five
  dictionaries.
\<close>

definition port_period :: "(real \<Rightarrow> real option) \<Rightarrow> (real \<Rightarrow> real option) \<Rightarrow> real list
    \<Rightarrow> int \<Rightarrow> PortfolioLife \<Rightarrow> PortfolioLife option" where
  "port_period vs C aVec_eee_big t st =
     do {
       (cVec_port, mVec_port, varsigmaVec_port) \<leftarrow> port_period_knots vs C aVec_eee_big;
       cFunc \<leftarrow> InterpolatedUnivariateSpline mVec_port cVec_port;
       varsigmaFunc \<leftarrow> InterpolatedUnivariateSpline (drop 1 mVec_port) (drop 1 varsigmaVec_port);
       Some \<lparr> cFunc_now = cFunc,
              mGridPort_life = dict_set (mGridPort_life st) t mVec_port,
              cGridPort_life = dict_set (cGridPort_life st) t cVec_port,
              varsigmaGrid_life = dict_set (varsigmaGrid_life st) t varsigmaVec_port,
              cFuncPort_life = dict_set (cFuncPort_life st) t cFunc,
              varsigma_life = dict_set (varsigma_life st) t varsigmaFunc \<rparr>
     }"

text \<open>The state before the last period: no dictionary has an entry.\<close>

definition port_empty :: PortfolioLife where
  "port_empty = \<lparr> cFunc_now = \<lparr> knots_x = [], knots_y = [] \<rparr>, mGridPort_life = [],
     cGridPort_life = [], varsigmaGrid_life = [], cFuncPort_life = [], varsigma_life = [] \<rparr>"

text \<open>The loop \<open>for t in range(T - 2, 0, -1)\<close> over the periods that are left.\<close>

fun portfolio_loop :: "GothicMC \<Rightarrow> real list \<Rightarrow> int list \<Rightarrow> PortfolioLife
    \<Rightarrow> PortfolioLife option" where
  "portfolio_loop g aVec_eee_big [] st = Some st"
| "portfolio_loop g aVec_eee_big (t # ts) st =
     (case port_period (\<lambda>a. varsigma_t g a (spline_call (cFunc_now st)))
             (\<lambda>a. C_t g a (spline_call (cFunc_now st))) aVec_eee_big t st of
        None \<Rightarrow> None
      | Some st' \<Rightarrow> portfolio_loop g aVec_eee_big ts st')"

text \<open>
  The portfolio solver, stopped after the first \<open>n\<close> iterations of the backward loop,
  and the whole solver.
\<close>

definition portfolio_after :: "nat \<Rightarrow> GothicMC \<Rightarrow> int \<Rightarrow> real list \<Rightarrow> PortfolioLife option" where
  "portfolio_after n g T aVec_eee_big =
     do {
       st \<leftarrow> port_period (varsigma_Tminus1 g) (C_Tminus1 g) aVec_eee_big (T - 1) port_empty;
       portfolio_loop g aVec_eee_big (take n (range_down (T - 2) 0)) st
     }"

definition solve_portfolio :: "GothicMC \<Rightarrow> int \<Rightarrow> real list \<Rightarrow> PortfolioLife option" where
  "solve_portfolio g T aVec_eee_big =
     do {
       st \<leftarrow> port_period (varsigma_Tminus1 g) (C_Tminus1 g) aVec_eee_big (T - 1) port_empty;
       portfolio_loop g aVec_eee_big (range_down (T - 2) 0) st
     }"

section \<open>The marginal value of the share, in the words of the specification\<close>

text \<open>
  The spec's \<open>portfolio_return(R, share) = gross_return + (R - gross_return) \<sqdot> share\<close>.
\<close>

definition portfolio_return :: "real \<Rightarrow> real \<Rightarrow> real \<Rightarrow> real" where
  "portfolio_return gross_return Rrisky share = gross_return + (Rrisky - gross_return) * share"

text \<open>
  The spec's \<open>marginal_value_of_share(a, share, c_next_or_none)\<close>:
  \<open>discount \<sqdot> (a/growth_factor) \<sqdot> joint_distribution.expectation((\<theta>, R) \<mapsto>
  (R - gross_return) \<sqdot> marginal_next(portfolio_return(R, share) \<sqdot> a/growth_factor + \<theta>))\<close>,
  and \<open>+\<infinity>\<close> by convention when \<open>a = 0\<close>. \<open>marginal_next\<close> is the marginal utility of its
  argument when \<open>c_next\<close> is absent, and of \<open>c_next\<close> of its argument when it is present.
\<close>

definition marginal_value_of_share :: "GothicMC \<Rightarrow> real \<Rightarrow> real \<Rightarrow> real
    \<Rightarrow> (real \<Rightarrow> real) option \<Rightarrow> foc option" where
  "marginal_value_of_share g growth_factor a share c_next_or_none =
     (if a = 0 then Some Inf
      else
        do {
          k \<leftarrow> float_div a growth_factor;
          ev \<leftarrow> E (Distribution g) (\<lambda>\<theta> Rrisky.
                 do {
                   mu \<leftarrow> (case c_next_or_none of
                           None \<Rightarrow> prime (u g) (portfolio_return (R g) Rrisky share * k + \<theta>)
                         | Some c_next \<Rightarrow>
                             prime (u g) (c_next (portfolio_return (R g) Rrisky share * k + \<theta>)));
                   Some ((Rrisky - R g) * mu)
                 });
          Some (Finite (beta g * k * ev))
        })"

text \<open>
  The invariant of the portfolio solver's dictionaries: the stored grids are the knots of
  the stored policies, and every policy starts at \<open>(0, 0)\<close> with \<open>c \<le> m\<close> throughout.
\<close>

definition port_inv :: "PortfolioLife \<Rightarrow> bool" where
  "port_inv st \<longleftrightarrow>
     mGridPort_life st = map (\<lambda>(t, f). (t, knots_x f)) (cFuncPort_life st) \<and>
     cGridPort_life st = map (\<lambda>(t, f). (t, knots_y f)) (cFuncPort_life st) \<and>
     (\<forall>(t, f)\<in>set (cFuncPort_life st).
        hd (knots_x f) = 0 \<and> hd (knots_y f) = 0 \<and> list_all2 (\<le>) (knots_y f) (knots_x f))"

section \<open>Well-posed configurations and sample instances\<close>

text \<open>
  A well-posed configuration of the engine: positive risk aversion, discount factor,
  return and growth factors, and a shock with positive values whose probabilities are
  non-negative and sum to one.
\<close>

definition well_posed :: "'a Gothic_scheme \<Rightarrow> bool" where
  "well_posed g \<longleftrightarrow>
     0 < gamma (u g) \<and> 0 < beta g \<and> 0 < R g \<and>
     Gamma g \<noteq> [] \<and> list_all (\<lambda>G. 0 < G) (Gamma g) \<and>
     X (Income g) \<noteq> [] \<and> length (X (Income g)) = length (pmf (Income g)) \<and>
     list_all (\<lambda>\<theta>. 0 < \<theta>) (X (Income g)) \<and>
     list_all (\<lambda>p. 0 \<le> p) (pmf (Income g)) \<and> sum_list (pmf (Income g)) = 1"

text \<open>An instance with unit parameters, one income shock and one risky return above \<open>R\<close>.\<close>

definition sample_gothicMC :: GothicMC where
  "sample_gothicMC =
     \<lparr> u = \<lparr> gamma = 1 \<rparr>, beta = 1, rho = 1, Gamma = [1], R = 1,
       Income = \<lparr> X = [1], pmf = [1] \<rparr>,
       Distribution = \<lparr> X1 = [1], pmf1 = [1], X2 = [2], pmf2 = [1] \<rparr>,
       share_grid_size = 2, varsigma_grids = [0, 1] \<rparr>"

text \<open>The same instance with a risky return that equals the riskless one.\<close>

definition riskless_gothicMC :: GothicMC where
  "riskless_gothicMC =
     sample_gothicMC \<lparr> Distribution := \<lparr> X1 = [1], pmf1 = [1], X2 = [1], pmf2 = [1] \<rparr> \<rparr>"

text \<open>An instance of the base class with unit parameters and one income shock.\<close>

definition sample_gothic :: Gothic where
  "sample_gothic =
     \<lparr> u = \<lparr> gamma = 1 \<rparr>, beta = 1, rho = 1, Gamma = [1], R = 1,
       Income = \<lparr> X = [1], pmf = [1] \<rparr> \<rparr>"

text \<open>The same instance with an income shock that is a loss.\<close>

definition loss_gothic :: Gothic where
  "loss_gothic = sample_gothic \<lparr> Income := \<lparr> X = [- 1], pmf = [1] \<rparr> \<rparr>"

section \<open>Monotone policies\<close>

text \<open>
  A policy that the next earlier period can be solved against: it never decreases, and
  it is positive on positive resources.
\<close>

definition good_policy :: "(real \<Rightarrow> real) \<Rightarrow> bool" where
  "good_policy c \<longleftrightarrow> (\<forall>x y. x \<le> y \<longrightarrow> c x \<le> c y) \<and> (\<forall>x. 0 < x \<longrightarrow> 0 < c x)"

text \<open>
  Knots that give such a policy: as many states as values, two at least, the states
  strictly increasing, the values never decreasing, the first knot at a state that is not
  positive with the value 0, and a positive value at the second knot.
\<close>

definition good_knots :: "real list \<Rightarrow> real list \<Rightarrow> bool" where
  "good_knots xs ys \<longleftrightarrow>
     length xs = length ys \<and> 2 \<le> length xs \<and> sorted_wrt (<) xs \<and> sorted ys \<and>
     hd xs \<le> 0 \<and> hd ys = 0 \<and> 0 < ys ! 1"

text \<open>The next-period policy of a period: absent, or one of the policies above.\<close>

definition policy_ok :: "(real \<Rightarrow> real) option \<Rightarrow> bool" where
  "policy_ok c_next_or_none \<longleftrightarrow> (case c_next_or_none of None \<Rightarrow> True | Some c \<Rightarrow> good_policy c)"

text \<open>
  Next period's consumption at the shock \<open>\<theta>\<close>, as \<open>expected_marginal_value\<close> computes it:
  all resources when there is no next-period policy, the policy's value otherwise.
\<close>

definition next_consumption :: "'a Gothic_scheme \<Rightarrow> (real \<Rightarrow> real) option \<Rightarrow> real \<Rightarrow> real \<Rightarrow> real" where
  "next_consumption g c_next_or_none a \<theta> =
     (case c_next_or_none of
        None \<Rightarrow> R g / last (Gamma g) * a + \<theta>
      | Some c_next \<Rightarrow> c_next (R g * a / last (Gamma g) + \<theta>))"

text \<open>The expectation inside \<open>expected_marginal_value\<close> and the value of \<open>implied_consumption\<close>.\<close>

definition marginal_sum :: "'a Gothic_scheme \<Rightarrow> (real \<Rightarrow> real) option \<Rightarrow> real \<Rightarrow> real" where
  "marginal_sum g c_next_or_none a =
     (\<Sum>(x, p)\<leftarrow>zip (X (Income g)) (pmf (Income g)).
        p * next_consumption g c_next_or_none a x powr (- gamma (u g)))"

definition consumption_value :: "'a Gothic_scheme \<Rightarrow> (real \<Rightarrow> real) option \<Rightarrow> real \<Rightarrow> real" where
  "consumption_value g c_next_or_none a =
     (beta g * R g * last (Gamma g) powr (- rho g) * marginal_sum g c_next_or_none a)
       powr (- 1 / gamma (u g))"

section \<open>Evaluating the sample instances\<close>

text \<open>The sample instance of \<open>GothicMC\<close> is what the constructor builds.\<close>

lemma sample_gothicMC_init:
  "GothicMC_init \<lparr> gamma = 1 \<rparr> 1 1 [1] 1 \<lparr> X1 = [1], pmf1 = [1], X2 = [2], pmf2 = [1] \<rparr> 2
     \<lparr> X = [1], pmf = [1] \<rparr> = Some sample_gothicMC"
  by (simp add: GothicMC_init_def linspace01_def sample_gothicMC_def upt_rec)

lemma sample_well_posed: "well_posed sample_gothic"
  by (simp add: well_posed_def sample_gothic_def)

lemmas sample_simps =
  sample_gothicMC_def index_last_def index_first_def float_div_def float_pow_def E_def
  prime_def powr_minus inverse_eq_divide Gamma_to_minusRho_def

lemmas gothic_simps =
  sample_gothic_def loss_gothic_def index_last_def index_first_def float_div_def float_pow_def
  expectation_def prime_def inverse_marginal_def powr_minus inverse_eq_divide
  expected_marginal_value_def implied_consumption_def Gothic_C_Tminus1_def Gothic_C_t_def
  self_a_min_def InterpolatedUnivariateSpline_def spline_call_def

lemmas portfolio_simps =
  varsigma_Tminus1_def Vsigma_Tminus1_def varsigma_t_def Vsigma_t_def find_optimal_share_def
  Va_Tminus1_def Va_t_def C_Tminus1_def C_t_def sample_simps
  InterpolatedUnivariateSpline_def spline_call_def port_empty_def

lemma range_down_num [simp]:
  "range_down 0 (- 1) = [0]" "range_down (- 1) (- 1) = []" "range_down 1 (-1) = [1, 0]"
  by (simp_all add: range_down_def upto.simps)

lemma range_down_portfolio [simp]:
  "range_down 0 0 = []" "range_down 1 0 = [1]" "range_down (- 1) 0 = []"
  by (simp_all add: range_down_def upto.simps)

section \<open>The first-order condition of implied consumption\<close>

lemma powr_inverse_exponent:
  fixes v r :: real
  assumes "0 < v" and "r \<noteq> 0"
  shows "(v powr (- (1 / r))) powr (- r) = v"
proof -
  have "(v powr (- (1 / r))) powr (- r) = v powr ((- (1 / r)) * (- r))"
    by (simp only: powr_powr)
  also have "(- (1 / r)) * (- r) = 1"
    using assms(2) by simp
  finally show ?thesis
    using assms(1) by simp
qed

lemma float_pow_positive:
  "0 < x \<Longrightarrow> float_pow x y = Some (x powr y)"
  by (simp add: float_pow_def)

text \<open>
  C1. Whenever the expected marginal value \<open>Va\<close> is a positive real number (and the risk
  aversion \<open>rho\<close>, by which the exponent divides, is not zero), the implied consumption is
  a positive real number and marginal utility \<open>x \<mapsto> x^(-rho)\<close> takes it back to \<open>Va\<close>
  exactly; this holds for \<open>C_Tminus1\<close> against \<open>Va_Tminus1\<close> and for \<open>C_t\<close> against
  \<open>Va_t\<close>, for every \<open>a\<close> and every next-period policy \<open>c_prime\<close>. The consumption is
  computed from \<open>Va\<close> by one power: nothing is searched.
\<close>

theorem implied_consumption_first_order_condition:
  assumes "rho g \<noteq> 0"
  shows "(\<forall>v. Va_Tminus1 g a = Some v \<and> 0 < v \<longrightarrow>
            C_Tminus1 g a = Some (v powr (- 1 / rho g)) \<and> 0 < v powr (- 1 / rho g) \<and>
            (v powr (- 1 / rho g)) powr (- rho g) = v) \<and>
         (\<forall>v. Va_t g a c_prime = Some v \<and> 0 < v \<longrightarrow>
            C_t g a c_prime = Some (v powr (- 1 / rho g)) \<and> 0 < v powr (- 1 / rho g) \<and>
            (v powr (- 1 / rho g)) powr (- rho g) = v)"
  using assms
  by (simp add: C_Tminus1_def C_t_def float_div_def float_pow_positive powr_inverse_exponent)

text \<open>
  The same holds for the base engine of the spec: marginal utility takes the implied
  consumption back to the expected marginal value.
\<close>

lemma marginal_of_implied_consumption:
  assumes "expected_marginal_value g a c_next_or_none = Some v" and "0 < v"
    and "gamma (u g) \<noteq> 0"
  shows "\<exists>c. implied_consumption g a c_next_or_none = Some c \<and> prime (u g) c = Some v"
proof -
  have "0 < v powr (- (1 / gamma (u g)))"
    using assms(2) by simp
  then show ?thesis
    using assms
    by (simp add: implied_consumption_def inverse_marginal_def prime_def powr_inverse_exponent)
qed

lemma sample_varsigma_Tminus1: "varsigma_Tminus1 sample_gothicMC 1 = Some 1"
  by (simp add: varsigma_Tminus1_def Vsigma_Tminus1_def find_optimal_share_def sample_simps)

lemma sample_varsigma_t: "varsigma_t sample_gothicMC 1 (\<lambda>x. x) = Some 1"
  by (simp add: varsigma_t_def Vsigma_t_def find_optimal_share_def sample_simps)

lemma sample_Va_Tminus1: "Va_Tminus1 sample_gothicMC 1 = Some (2 / 3)"
  by (simp add: Va_Tminus1_def sample_varsigma_Tminus1) (simp add: sample_simps)

lemma sample_Va_t: "Va_t sample_gothicMC 1 (\<lambda>x. x) = Some (2 / 3)"
  by (simp add: Va_t_def sample_varsigma_t) (simp add: sample_simps)

theorem implied_consumption_first_order_condition_witness:
  "C_Tminus1 sample_gothicMC 1 = Some (3 / 2) \<and> (3 / 2 :: real) powr (- 1) = 2 / 3 \<and>
   C_t sample_gothicMC 1 (\<lambda>x. x) = Some (3 / 2)"
proof -
  have r: "rho sample_gothicMC \<noteq> 0"
    by (simp add: sample_gothicMC_def)
  have r1: "rho sample_gothicMC = 1"
    by (simp add: sample_gothicMC_def)
  have p: "(2 / 3 :: real) powr (- 1) = 3 / 2"
    by (simp add: powr_minus inverse_eq_divide)
  note foc = implied_consumption_first_order_condition [OF r, of 1 "\<lambda>x. x"]
  have "C_Tminus1 sample_gothicMC 1 = Some ((2 / 3) powr (- 1 / rho sample_gothicMC))"
    using foc sample_Va_Tminus1 by simp
  moreover have "C_t sample_gothicMC 1 (\<lambda>x. x) = Some ((2 / 3) powr (- 1 / rho sample_gothicMC))"
    using foc sample_Va_t by simp
  moreover have "((2 / 3) powr (- 1 / rho sample_gothicMC)) powr (- rho sample_gothicMC) = 2 / 3"
    using foc sample_Va_t by simp
  ultimately show ?thesis
    by (simp add: r1 p)
qed

section \<open>The sweep over the grid\<close>

lemma sweep_eq:
  "sweep C constrained as (cVec, mVec) =
     (if \<forall>a\<in>set as. C a \<noteq> None
      then Some (cVec @ map (\<lambda>a. if constrained then min (the (C a)) (the (C a) + a)
                                   else the (C a)) as,
                 mVec @ map (\<lambda>a. the (C a) + a) as)
      else None)"
  by (induction as arbitrary: cVec mVec) (auto simp: Let_def split: option.splits)

lemma period_knots_eq:
  "period_knots C constrained a_min as =
     (if \<forall>a\<in>set as. C a \<noteq> None
      then Some (0 # map (\<lambda>a. if constrained then min (the (C a)) (the (C a) + a)
                                else the (C a)) as,
                 (if constrained \<and> a_min < 0 then 0 else a_min) # map (\<lambda>a. the (C a) + a) as)
      else None)"
  by (simp add: period_knots_def sweep_eq)

lemma period_knots_SomeD:
  assumes "period_knots C constrained a_min as = Some (cVec, mVec)"
  shows "cVec = 0 # map (\<lambda>a. if constrained then min (the (C a)) (the (C a) + a)
                               else the (C a)) as"
    and "mVec = (if constrained \<and> a_min < 0 then 0 else a_min) # map (\<lambda>a. the (C a) + a) as"
    and "\<forall>a\<in>set as. C a \<noteq> None"
  using assms by (auto simp: period_knots_eq split: if_splits)

lemma solve_period_knots:
  assumes "solve_period C constrained a_min as = Some f"
  shows "period_knots C constrained a_min as = Some (knots_y f, knots_x f)"
  using assms
  by (auto simp: solve_period_def InterpolatedUnivariateSpline_def
      split: Option.bind_splits if_splits)

lemma period_knots_positive_grid:
  assumes "period_knots C constrained a_min as = Some (cVec, mVec)"
    and "list_all (\<lambda>a. 0 < a) as"
  shows "length mVec = Suc (length as)" and "tl mVec = map2 (+) (tl cVec) as"
proof -
  note knots = period_knots_SomeD [OF assms(1)]
  show "length mVec = Suc (length as)"
    by (simp add: knots(2))
  have "map (\<lambda>a. the (C a) + a) as =
      map (\<lambda>a. (if constrained then min (the (C a)) (the (C a) + a) else the (C a)) + a) as"
  proof (rule map_cong [OF refl])
    fix a
    assume "a \<in> set as"
    then have "0 < a"
      using assms(2) by (simp add: list_all_iff)
    then have "min (the (C a)) (the (C a) + a) = the (C a)"
      by simp
    then show "the (C a) + a =
        (if constrained then min (the (C a)) (the (C a) + a) else the (C a)) + a"
      by simp
  qed
  then show "tl mVec = map2 (+) (tl cVec) as"
    by (simp add: knots(1,2) zip_map1 zip_same_conv_map)
qed

section \<open>Dictionaries and the backward loop\<close>

lemma dict_set_subset: "set (dict_set d k v) \<subseteq> insert (k, v) (set d)"
  by (induction d) (auto split: if_splits)

lemma dict_set_keys_new:
  "k \<notin> fst ` set d \<Longrightarrow> map fst (dict_set d k v) = map fst d @ [k]"
  by (induction d) auto

lemma dict_set_map_values:
  "map (\<lambda>(k, v). (k, h v)) (dict_set d k v) = dict_set (map (\<lambda>(k, v). (k, h v)) d) k (h v)"
  by (induction d) auto

lemma range_down_set: "set (range_down hi lo) = {lo + 1..hi}"
  by (simp add: range_down_def)

lemma range_down_distinct: "distinct (range_down hi lo)"
  by (simp add: range_down_def)

lemma range_down_decreasing: "sorted_wrt (>) (range_down hi lo)"
proof -
  have "sorted_wrt (<) [lo + 1..hi]"
    by (simp add: sorted_wrt_iff_nth_less)
  then show ?thesis
    by (simp add: range_down_def sorted_wrt_rev)
qed

lemma life_cycle_loop_append:
  "life_cycle_loop g constrained a_min as (ts1 @ ts2) st =
     Option.bind (life_cycle_loop g constrained a_min as ts1 st)
       (life_cycle_loop g constrained a_min as ts2)"
proof (induction ts1 arbitrary: st)
  case Nil
  show ?case by simp
next
  case (Cons t ts1)
  obtain cFunc cFunc_life where st: "st = (cFunc, cFunc_life)"
    by (cases st)
  show ?case
    by (simp add: st Cons.IH split: option.splits)
qed

lemma life_cycle_loop_invariant:
  assumes step: "\<And>C f. solve_period C constrained a_min as = Some f \<Longrightarrow> P f"
    and run: "life_cycle_loop g constrained a_min as ts (cFunc, cFunc_life) = Some (cFunc', cFunc_life')"
    and init: "\<forall>(t, f)\<in>set cFunc_life. P f"
  shows "\<forall>(t, f)\<in>set cFunc_life'. P f"
  using run init
proof (induction ts arbitrary: cFunc cFunc_life)
  case Nil
  then show ?case by simp
next
  case (Cons t ts)
  from Cons.prems(1) obtain f where
    f: "solve_period (\<lambda>a. Gothic_C_t g a (spline_call cFunc)) constrained a_min as = Some f"
    and rest: "life_cycle_loop g constrained a_min as ts (f, dict_set cFunc_life t f) =
                 Some (cFunc', cFunc_life')"
    by (auto split: option.splits)
  have "P f"
    using f by (rule step)
  then have "\<forall>(t, f)\<in>set (dict_set cFunc_life t f). P f"
    using Cons.prems(2) dict_set_subset [of cFunc_life t f] by auto
  with rest show ?case
    by (rule Cons.IH)
qed

lemma life_cycle_loop_keys:
  assumes "life_cycle_loop g constrained a_min as ts (cFunc, cFunc_life) = Some (cFunc', cFunc_life')"
    and "distinct ts" and "set ts \<inter> fst ` set cFunc_life = {}"
  shows "map fst cFunc_life' = map fst cFunc_life @ ts"
  using assms
proof (induction ts arbitrary: cFunc cFunc_life)
  case Nil
  then show ?case by simp
next
  case (Cons t ts)
  from Cons.prems(1) obtain f where
    rest: "life_cycle_loop g constrained a_min as ts (f, dict_set cFunc_life t f) =
                 Some (cFunc', cFunc_life')"
    by (auto split: option.splits)
  have new: "t \<notin> fst ` set cFunc_life"
    using Cons.prems(3) by auto
  then have keys: "map fst (dict_set cFunc_life t f) = map fst cFunc_life @ [t]"
    by (rule dict_set_keys_new)
  have "set ts \<inter> fst ` set (dict_set cFunc_life t f) = {}"
  proof -
    have "fst ` set (dict_set cFunc_life t f) = set (map fst (dict_set cFunc_life t f))"
      by simp
    also have "\<dots> = insert t (fst ` set cFunc_life)"
      by (simp only: keys) simp
    finally show ?thesis
      using Cons.prems(2,3) by auto
  qed
  with rest Cons.prems(2) have "map fst cFunc_life' = map fst (dict_set cFunc_life t f) @ ts"
    by (intro Cons.IH) simp_all
  then show ?case
    by (simp add: keys)
qed

lemma solve_life_cycle_invariant:
  assumes step: "\<And>C a_min f. self_a_min g = Some a_min \<Longrightarrow>
                   solve_period C constrained a_min as = Some f \<Longrightarrow> P f"
    and run: "solve_life_cycle g constrained T as = Some cFunc_life"
  shows "\<forall>(t, f)\<in>set cFunc_life. P f"
proof -
  from run obtain a_min cFunc cFunc' where
    a_min: "self_a_min g = Some a_min"
    and first: "solve_period (Gothic_C_Tminus1 g) constrained a_min as = Some cFunc"
    and loop: "life_cycle_loop g constrained a_min as (range_down (T - 2) (- 1))
                 (cFunc, [(T - 1, cFunc)]) = Some (cFunc', cFunc_life)"
    by (auto simp: solve_life_cycle_def life_cycle_init_def split: Option.bind_splits)
  have "\<forall>(t, f)\<in>set [(T - 1, cFunc)]. P f"
    using step [OF a_min first] by simp
  with loop show ?thesis
    by (rule life_cycle_loop_invariant [rotated]) (rule step [OF a_min])
qed

section \<open>Piecewise-linear interpolation of monotone knots\<close>

lemma segment_mono:
  fixes x0 x1 y0 y1 x x' :: real
  assumes "x0 < x1" and "y0 \<le> y1" and "x \<le> x'"
  shows "y0 + (y1 - y0) * (x - x0) / (x1 - x0) \<le> y0 + (y1 - y0) * (x' - x0) / (x1 - x0)"
proof -
  have "(y1 - y0) * (x - x0) \<le> (y1 - y0) * (x' - x0)"
    using assms(2,3) by (intro mult_left_mono) simp_all
  then have "(y1 - y0) * (x - x0) / (x1 - x0) \<le> (y1 - y0) * (x' - x0) / (x1 - x0)"
    using assms(1) by (intro divide_right_mono) simp_all
  then show ?thesis
    by simp
qed

lemma piecewise_linear_ge_first:
  assumes "length xs = length ys" and "2 \<le> length xs" and "sorted_wrt (<) xs" and "sorted ys"
    and "hd xs \<le> x"
  shows "hd ys \<le> piecewise_linear xs ys x"
  using assms
proof (induction xs ys x rule: piecewise_linear.induct)
  case (1 x0 x1 xs y0 y1 ys x)
  have lt: "x0 < x1" and le: "y0 \<le> y1" and x: "x0 \<le> x"
    using "1.prems" by simp_all
  show ?case
  proof (cases "x \<le> x1 \<or> xs = []")
    case True
    have "y0 + (y1 - y0) * (x0 - x0) / (x1 - x0) \<le> y0 + (y1 - y0) * (x - x0) / (x1 - x0)"
      using lt le x by (rule segment_mono)
    with True show ?thesis
      by simp
  next
    case False
    then have ne: "xs \<noteq> []" and gt: "x1 < x"
      by simp_all
    have "hd (y1 # ys) \<le> piecewise_linear (x1 # xs) (y1 # ys) x"
    proof (rule "1.IH" [OF False])
      show "length (x1 # xs) = length (y1 # ys)"
        using "1.prems"(1) by simp
      show "2 \<le> length (x1 # xs)"
        using ne by (cases xs) simp_all
      show "sorted_wrt (<) (x1 # xs)"
        using "1.prems"(3) by simp
      show "sorted (y1 # ys)"
        using "1.prems"(4) by simp
      show "hd (x1 # xs) \<le> x"
        using gt by simp
    qed
    with False le show ?thesis
      by simp
  qed
qed simp_all

lemma piecewise_linear_mono:
  assumes "length xs = length ys" and "2 \<le> length xs" and "sorted_wrt (<) xs" and "sorted ys"
    and "x \<le> x'"
  shows "piecewise_linear xs ys x \<le> piecewise_linear xs ys x'"
  using assms
proof (induction xs ys x rule: piecewise_linear.induct)
  case (1 x0 x1 xs y0 y1 ys x)
  have lt: "x0 < x1" and le: "y0 \<le> y1"
    using "1.prems" by simp_all
  have len: "length (x1 # xs) = length (y1 # ys)"
    using "1.prems"(1) by simp
  have sx: "sorted_wrt (<) (x1 # xs)" and sy: "sorted (y1 # ys)"
    using "1.prems"(3,4) by simp_all
  show ?case
  proof (cases "x \<le> x1 \<or> xs = []")
    case first: True
    show ?thesis
    proof (cases "x' \<le> x1 \<or> xs = []")
      case True
      with first segment_mono [OF lt le "1.prems"(5)] show ?thesis
        by simp
    next
      case False
      then have ne: "xs \<noteq> []" and gt: "x1 < x'"
        by simp_all
      with first have x: "x \<le> x1"
        by simp
      have "y0 + (y1 - y0) * (x - x0) / (x1 - x0) \<le> y0 + (y1 - y0) * (x1 - x0) / (x1 - x0)"
        using lt le x by (rule segment_mono)
      then have "piecewise_linear (x0 # x1 # xs) (y0 # y1 # ys) x \<le> y1"
        using first lt by simp
      also have "y1 \<le> piecewise_linear (x1 # xs) (y1 # ys) x'"
      proof -
        have "2 \<le> length (x1 # xs)"
          using ne by (cases xs) simp_all
        moreover have "hd (x1 # xs) \<le> x'"
          using gt by simp
        ultimately have "hd (y1 # ys) \<le> piecewise_linear (x1 # xs) (y1 # ys) x'"
          using len sx sy by (intro piecewise_linear_ge_first)
        then show ?thesis
          by simp
      qed
      finally show ?thesis
        using False by simp
    qed
  next
    case False
    then have ne: "xs \<noteq> []" and gt: "x1 < x"
      by simp_all
    then have later: "\<not> (x' \<le> x1 \<or> xs = [])"
      using "1.prems"(5) by simp
    have "piecewise_linear (x1 # xs) (y1 # ys) x \<le> piecewise_linear (x1 # xs) (y1 # ys) x'"
    proof (rule "1.IH" [OF False len _ sx sy "1.prems"(5)])
      show "2 \<le> length (x1 # xs)"
        using ne by (cases xs) simp_all
    qed
    with False later show ?thesis
      by simp
  qed
qed simp_all

lemma piecewise_linear_pos:
  assumes "good_knots xs ys" and "0 < x"
  shows "0 < piecewise_linear xs ys x"
proof -
  from assms(1) obtain x0 x1 xs' y0 y1 ys' where
    xs: "xs = x0 # x1 # xs'" and ys: "ys = y0 # y1 # ys'"
    unfolding good_knots_def
    by (cases xs; cases ys; cases "tl xs"; cases "tl ys") auto
  have lt: "x0 < x1" and x0: "x0 \<le> 0" and y0: "y0 = 0" and y1: "0 < y1"
    and len: "length (x1 # xs') = length (y1 # ys')"
    and sx: "sorted_wrt (<) (x1 # xs')" and sy: "sorted (y1 # ys')"
    using assms(1) unfolding good_knots_def xs ys by simp_all
  show ?thesis
  proof (cases "x \<le> x1 \<or> xs' = []")
    case True
    have "0 < y1 * (x - x0) / (x1 - x0)"
      using y1 lt x0 assms(2) by simp
    with True show ?thesis
      by (simp add: xs ys y0)
  next
    case False
    then have ne: "xs' \<noteq> []" and gt: "x1 < x"
      by simp_all
    have "2 \<le> length (x1 # xs')"
      using ne by (cases xs') simp_all
    moreover have "hd (x1 # xs') \<le> x"
      using gt by simp
    ultimately have "hd (y1 # ys') \<le> piecewise_linear (x1 # xs') (y1 # ys') x"
      using len sx sy by (intro piecewise_linear_ge_first)
    with False y1 show ?thesis
      by (simp add: xs ys)
  qed
qed

lemma good_knots_policy:
  assumes "good_knots (knots_x f) (knots_y f)"
  shows "good_policy (spline_call f)"
  using assms piecewise_linear_mono [of "knots_x f" "knots_y f"]
    piecewise_linear_pos [of "knots_x f" "knots_y f"]
  unfolding good_policy_def spline_call_def good_knots_def by blast

section \<open>Expectations of positive functions\<close>

lemma sum_results_weighted:
  assumes "\<forall>(x, p)\<in>set xps. f x = Some (h x)"
  shows "sum_results (map (\<lambda>(x, p). map_option (\<lambda>v. p * v) (f x)) xps) =
           Some (\<Sum>(x, p)\<leftarrow>xps. p * h x)"
  using assms by (induction xps) auto

lemma expectation_Some:
  assumes "\<forall>x\<in>set (X d). f x = Some (h x)"
  shows "expectation d f = Some (\<Sum>(x, p)\<leftarrow>zip (X d) (pmf d). p * h x)"
  unfolding expectation_def
proof (rule sum_results_weighted)
  show "\<forall>(x, p)\<in>set (zip (X d) (pmf d)). f x = Some (h x)"
    using assms by (auto dest: set_zip_leftD)
qed

lemma weighted_sum_nonneg:
  fixes h :: "real \<Rightarrow> real"
  assumes "\<forall>(x, p)\<in>set xps. 0 < h x \<and> 0 \<le> p"
  shows "0 \<le> (\<Sum>(x, p)\<leftarrow>xps. p * h x)"
  using assms by (induction xps) (auto intro!: add_nonneg_nonneg)

lemma weighted_sum_pos:
  fixes h :: "real \<Rightarrow> real"
  assumes "\<forall>(x, p)\<in>set xps. 0 < h x \<and> 0 \<le> p" and "0 < sum_list (map snd xps)"
  shows "0 < (\<Sum>(x, p)\<leftarrow>xps. p * h x)"
  using assms
proof (induction xps)
  case Nil
  then show ?case by simp
next
  case (Cons xp xps)
  obtain x p where xp: "xp = (x, p)"
    by (cases xp)
  have hx: "0 < h x" and p: "0 \<le> p" and rest: "\<forall>(x, p)\<in>set xps. 0 < h x \<and> 0 \<le> p"
    using Cons.prems(1) by (simp_all add: xp)
  have nonneg: "0 \<le> (\<Sum>(x, p)\<leftarrow>xps. p * h x)"
    using rest by (rule weighted_sum_nonneg)
  show ?case
  proof (cases "0 < p")
    case True
    then have "0 < p * h x"
      using hx by simp
    with nonneg show ?thesis
      by (simp add: xp add_pos_nonneg)
  next
    case False
    with p have "p = 0"
      by simp
    then have "0 < sum_list (map snd xps)"
      using Cons.prems(2) by (simp add: xp)
    with rest have "0 < (\<Sum>(x, p)\<leftarrow>xps. p * h x)"
      by (rule Cons.IH)
    then show ?thesis
      using \<open>p = 0\<close> by (simp add: xp)
  qed
qed

lemma weighted_sum_mono:
  fixes h h' :: "real \<Rightarrow> real"
  assumes "\<forall>(x, p)\<in>set xps. 0 \<le> p \<and> h x \<le> h' x"
  shows "(\<Sum>(x, p)\<leftarrow>xps. p * h x) \<le> (\<Sum>(x, p)\<leftarrow>xps. p * h' x)"
  using assms by (induction xps) (auto intro!: add_mono mult_left_mono)

text \<open>The facts about a well-posed configuration that the proofs use.\<close>

lemma well_posed_growth:
  assumes "well_posed g"
  shows "index_last (Gamma g) = Some (last (Gamma g))" and "0 < last (Gamma g)"
    and "index_first (Gamma g) = Some (hd (Gamma g))" and "0 < hd (Gamma g)"
  using assms
  by (auto simp: well_posed_def index_last_def index_first_def list_all_iff
      split: list.splits)

lemma well_posed_shocks:
  assumes "well_posed g" and "(x, p) \<in> set (zip (X (Income g)) (pmf (Income g)))"
  shows "0 < x" and "0 \<le> p"
  using assms
  by (auto simp: well_posed_def list_all_iff dest: set_zip_leftD set_zip_rightD)

lemma well_posed_mass:
  assumes "well_posed g"
  shows "0 < sum_list (map snd (zip (X (Income g)) (pmf (Income g))))"
  using assms by (simp add: well_posed_def)

section \<open>Implied consumption in a well-posed configuration\<close>

lemma next_consumption_pos:
  assumes "well_posed g" and "policy_ok cn" and "0 < a" and "0 < \<theta>"
  shows "0 < next_consumption g cn a \<theta>"
proof -
  have G: "0 < last (Gamma g)" and Rg: "0 < R g"
    using assms(1) well_posed_growth(2) by (auto simp: well_posed_def)
  show ?thesis
  proof (cases cn)
    case None
    have "0 < R g / last (Gamma g) * a"
      using G Rg assms(3) by simp
    then show ?thesis
      using assms(4) by (simp add: next_consumption_def None)
  next
    case (Some c)
    have "0 < R g * a / last (Gamma g)"
      using G Rg assms(3) by simp
    then have "0 < R g * a / last (Gamma g) + \<theta>"
      using assms(4) by simp
    moreover have "good_policy c"
      using assms(2) by (simp add: policy_ok_def Some)
    ultimately show ?thesis
      by (simp add: next_consumption_def Some good_policy_def)
  qed
qed

lemma next_consumption_mono:
  assumes "well_posed g" and "policy_ok cn" and "a \<le> a'"
  shows "next_consumption g cn a \<theta> \<le> next_consumption g cn a' \<theta>"
proof -
  have G: "0 < last (Gamma g)" and Rg: "0 < R g"
    using assms(1) well_posed_growth(2) by (auto simp: well_posed_def)
  show ?thesis
  proof (cases cn)
    case None
    have "R g / last (Gamma g) * a \<le> R g / last (Gamma g) * a'"
      using G Rg assms(3) by (intro mult_left_mono) simp_all
    then show ?thesis
      by (simp add: next_consumption_def None)
  next
    case (Some c)
    have "R g * a \<le> R g * a'"
      using Rg assms(3) by simp
    then have "R g * a / last (Gamma g) + \<theta> \<le> R g * a' / last (Gamma g) + \<theta>"
      using G by (simp add: divide_right_mono)
    moreover have "good_policy c"
      using assms(2) by (simp add: policy_ok_def Some)
    ultimately show ?thesis
      by (simp add: next_consumption_def Some good_policy_def)
  qed
qed

lemma expected_marginal_value_eq:
  assumes "well_posed g" and "policy_ok cn" and "0 < a"
  shows "expected_marginal_value g a cn =
           Some (beta g * R g * last (Gamma g) powr (- rho g) * marginal_sum g cn a)"
proof -
  have G: "0 < last (Gamma g)" and iG: "index_last (Gamma g) = Some (last (Gamma g))"
    using assms(1) by (rule well_posed_growth)+
  let ?f = "\<lambda>\<theta>. case cn of
                None \<Rightarrow> do {
                  q \<leftarrow> float_div (R g) (last (Gamma g));
                  prime (u g) (q * a + \<theta>)
                }
              | Some c_next \<Rightarrow> do {
                  q \<leftarrow> float_div (R g * a) (last (Gamma g));
                  prime (u g) (c_next (q + \<theta>))
                }"
  have f: "\<forall>x\<in>set (X (Income g)). ?f x = Some (next_consumption g cn a x powr (- gamma (u g)))"
  proof
    fix x
    assume "x \<in> set (X (Income g))"
    then have "0 < x"
      using assms(1) by (simp add: well_posed_def list_all_iff)
    then have pos: "0 < next_consumption g cn a x"
      using assms by (intro next_consumption_pos)
    show "?f x = Some (next_consumption g cn a x powr (- gamma (u g)))"
    proof (cases cn)
      case None
      with pos G show ?thesis
        by (simp add: next_consumption_def float_div_def prime_def)
    next
      case (Some c)
      with pos G show ?thesis
        by (simp add: next_consumption_def float_div_def prime_def)
    qed
  qed
  have "expectation (Income g) ?f = Some (marginal_sum g cn a)"
    unfolding marginal_sum_def using f by (rule expectation_Some)
  then show ?thesis
    using G by (simp add: expected_marginal_value_def iG float_pow_def)
qed

lemma marginal_sum_pos:
  assumes "well_posed g" and "policy_ok cn" and "0 < a"
  shows "0 < marginal_sum g cn a"
  unfolding marginal_sum_def
proof (rule weighted_sum_pos)
  show "\<forall>(x, p)\<in>set (zip (X (Income g)) (pmf (Income g))).
          0 < next_consumption g cn a x powr (- gamma (u g)) \<and> 0 \<le> p"
  proof clarify
    fix x p
    assume xp: "(x, p) \<in> set (zip (X (Income g)) (pmf (Income g)))"
    have "0 < x" and p: "0 \<le> p"
      using well_posed_shocks [OF assms(1) xp] by simp_all
    then have "0 < next_consumption g cn a x"
      using assms by (intro next_consumption_pos)
    then have "next_consumption g cn a x \<noteq> 0"
      by simp
    then have "0 < next_consumption g cn a x powr (- gamma (u g))"
      by (rule iffD2 [OF powr_gt_zero])
    with p show "0 < next_consumption g cn a x powr (- gamma (u g)) \<and> 0 \<le> p"
      by simp
  qed
  show "0 < sum_list (map snd (zip (X (Income g)) (pmf (Income g))))"
    using assms(1) by (rule well_posed_mass)
qed

lemma marginal_sum_antimono:
  assumes "well_posed g" and "policy_ok cn" and "0 < a" and "a \<le> a'"
  shows "marginal_sum g cn a' \<le> marginal_sum g cn a"
  unfolding marginal_sum_def
proof (rule weighted_sum_mono, clarify)
  fix x p
  assume xp: "(x, p) \<in> set (zip (X (Income g)) (pmf (Income g)))"
  have "0 < x" and p: "0 \<le> p"
    using well_posed_shocks [OF assms(1) xp] by simp_all
  then have "0 < next_consumption g cn a x"
    using assms by (intro next_consumption_pos)
  moreover have "next_consumption g cn a x \<le> next_consumption g cn a' x"
    using assms(1,2,4) by (rule next_consumption_mono)
  moreover have "- gamma (u g) \<le> 0"
    using assms(1) by (simp add: well_posed_def)
  ultimately have "next_consumption g cn a' x powr (- gamma (u g))
      \<le> next_consumption g cn a x powr (- gamma (u g))"
    by (intro powr_mono2') simp_all
  with p show "0 \<le> p \<and> next_consumption g cn a' x powr (- gamma (u g))
      \<le> next_consumption g cn a x powr (- gamma (u g))"
    by simp
qed

lemma implied_consumption_eq:
  assumes "well_posed g" and "policy_ok cn" and "0 < a"
  shows "implied_consumption g a cn = Some (consumption_value g cn a)"
    and "0 < consumption_value g cn a"
proof -
  let ?k = "beta g * R g * last (Gamma g) powr (- rho g)"
  have k: "0 < ?k"
    using assms(1) well_posed_growth(2) [OF assms(1)] by (simp add: well_posed_def)
  have v: "0 < ?k * marginal_sum g cn a"
    using k marginal_sum_pos [OF assms] by simp
  have gam: "gamma (u g) \<noteq> 0"
    using assms(1) by (simp add: well_posed_def)
  show "implied_consumption g a cn = Some (consumption_value g cn a)"
    using v gam
    by (simp add: implied_consumption_def expected_marginal_value_eq [OF assms]
        inverse_marginal_def consumption_value_def)
  have "?k * marginal_sum g cn a \<noteq> 0"
    using v by linarith
  then show "0 < consumption_value g cn a"
    unfolding consumption_value_def by (rule iffD2 [OF powr_gt_zero])
qed

lemma consumption_value_mono:
  assumes "well_posed g" and "policy_ok cn" and "0 < a" and "a \<le> a'"
  shows "consumption_value g cn a \<le> consumption_value g cn a'"
proof -
  let ?k = "beta g * R g * last (Gamma g) powr (- rho g)"
  have k: "0 < ?k"
    using assms(1) well_posed_growth(2) [OF assms(1)] by (simp add: well_posed_def)
  have a': "0 < a'"
    using assms(3,4) by simp
  have pos: "0 < ?k * marginal_sum g cn a'"
    using k marginal_sum_pos [OF assms(1,2) a'] by simp
  have le: "?k * marginal_sum g cn a' \<le> ?k * marginal_sum g cn a"
    using k marginal_sum_antimono [OF assms] by (intro mult_left_mono) simp_all
  have "- 1 / gamma (u g) \<le> 0"
    using assms(1) by (simp add: well_posed_def)
  then show ?thesis
    unfolding consumption_value_def using pos le by (intro powr_mono2')
qed

section \<open>The cash-on-hand knots of every period\<close>

lemma self_a_min_negative:
  assumes "well_posed g"
  shows "\<exists>a_min. self_a_min g = Some a_min \<and> a_min < 0"
proof -
  have ne: "X (Income g) \<noteq> []" and Rg: "0 < R g"
    using assms by (simp_all add: well_posed_def)
  have "min_list (X (Income g)) \<in> set (X (Income g))"
    using ne by (simp add: min_list_Min)
  then have m: "0 < min_list (X (Income g))"
    using assms by (simp add: well_posed_def list_all_iff)
  have G: "index_first (Gamma g) = Some (hd (Gamma g))" "0 < hd (Gamma g)"
    using assms by (rule well_posed_growth)+
  have "self_a_min g = Some (- min_list (X (Income g)) * hd (Gamma g) / R g)"
    using ne Rg by (simp add: self_a_min_def G(1) float_div_def)
  moreover have "- min_list (X (Income g)) * hd (Gamma g) / R g < 0"
    using m G(2) Rg by (simp add: divide_neg_pos)
  ultimately show ?thesis
    by blast
qed

lemma sorted_wrt_map_mono:
  assumes "sorted_wrt (<) (xs :: real list)" and "\<And>x y. x \<in> set xs \<Longrightarrow> x < y \<Longrightarrow> P (f x) (f y)"
  shows "sorted_wrt P (map f xs)"
  unfolding sorted_wrt_map
  using assms(1)
proof (rule sorted_wrt_mono_rel [rotated])
  fix x y
  assume "x \<in> set xs" and "y \<in> set xs" and "x < y"
  then show "P (f x) (f y)"
    using assms(2) by blast
qed

lemma solve_period_good:
  assumes wp: "well_posed g" and cn: "policy_ok cn"
    and ne: "as \<noteq> []" and sorted: "sorted_wrt (<) as" and pos: "list_all (\<lambda>a. 0 < a) as"
    and a_min: "a_min < 0"
  shows "\<exists>f. solve_period (\<lambda>a. implied_consumption g a cn) constrained a_min as = Some f \<and>
             good_knots (knots_x f) (knots_y f)"
proof -
  let ?C = "\<lambda>a. implied_consumption g a cn"
  let ?cv = "consumption_value g cn"
  let ?b = "if constrained \<and> a_min < 0 then 0 else a_min"
  let ?cVec = "0 # map ?cv as"
  let ?mVec = "?b # map (\<lambda>a. ?cv a + a) as"
  have a_pos: "0 < a" if "a \<in> set as" for a
    using pos that by (simp add: list_all_iff)
  have C: "?C a = Some (?cv a)" and cv_pos: "0 < ?cv a" if "a \<in> set as" for a
    using implied_consumption_eq [OF wp cn a_pos [OF that]] by simp_all
  have cv_mono: "?cv a \<le> ?cv a'" if "a \<in> set as" and "a < a'" for a a'
    using wp cn a_pos [OF that(1)] that(2) by (intro consumption_value_mono) simp_all
  have all: "\<forall>a\<in>set as. ?C a \<noteq> None"
    using C by simp
  have c_eq: "map (\<lambda>a. if constrained then min (the (?C a)) (the (?C a) + a) else the (?C a)) as
      = map ?cv as"
  proof (rule map_cong [OF refl])
    fix a
    assume a: "a \<in> set as"
    have "min (?cv a) (?cv a + a) = ?cv a"
      using a_pos [OF a] by simp
    then show "(if constrained then min (the (?C a)) (the (?C a) + a) else the (?C a)) = ?cv a"
      by (simp add: C [OF a])
  qed
  have m_eq: "map (\<lambda>a. the (?C a) + a) as = map (\<lambda>a. ?cv a + a) as"
    by (rule map_cong [OF refl]) (simp add: C)
  have knots: "period_knots ?C constrained a_min as = Some (?cVec, ?mVec)"
    unfolding period_knots_eq c_eq m_eq using all by (rule if_P)
  have b: "?b \<le> 0"
    using a_min by simp
  have len2: "2 \<le> length ?mVec"
    using ne by (cases as) simp_all
  have sm: "sorted_wrt (<) ?mVec"
  proof -
    have "sorted_wrt (<) (map (\<lambda>a. ?cv a + a) as)"
      using sorted
    proof (rule sorted_wrt_map_mono)
      fix x y :: real
      assume "x \<in> set as" and "x < y"
      then show "?cv x + x < ?cv y + y"
        using cv_mono [of x y] by simp
    qed
    moreover have "\<forall>a\<in>set as. ?b < ?cv a + a"
    proof
      fix a
      assume a: "a \<in> set as"
      have "0 < ?cv a + a"
        using cv_pos [OF a] a_pos [OF a] by simp
      with b show "?b < ?cv a + a"
        by linarith
    qed
    ultimately show ?thesis
      by simp
  qed
  have sc: "sorted ?cVec"
  proof -
    have "sorted_wrt (\<le>) (map ?cv as)"
      using sorted cv_mono by (rule sorted_wrt_map_mono)
    moreover have "\<forall>a\<in>set as. 0 \<le> ?cv a"
      using cv_pos by (auto intro: less_imp_le)
    ultimately show ?thesis
      by simp
  qed
  have first: "0 < ?cVec ! 1"
    using ne cv_pos [of "hd as"] by (cases as) simp_all
  let ?f = "\<lparr> knots_x = ?mVec, knots_y = ?cVec \<rparr>"
  have "InterpolatedUnivariateSpline ?mVec ?cVec = Some ?f"
    unfolding InterpolatedUnivariateSpline_def using len2 sm by simp
  then have "solve_period ?C constrained a_min as = Some ?f"
    by (simp add: solve_period_def knots)
  moreover have "good_knots (knots_x ?f) (knots_y ?f)"
    unfolding good_knots_def using len2 sm sc first b by simp
  ultimately show ?thesis
    by blast
qed

lemma life_cycle_loop_good:
  assumes wp: "well_posed g"
    and ne: "as \<noteq> []" and sorted: "sorted_wrt (<) as" and pos: "list_all (\<lambda>a. 0 < a) as"
    and a_min: "a_min < 0"
    and cFunc: "good_knots (knots_x cFunc) (knots_y cFunc)"
    and dict: "\<forall>(t, f)\<in>set cFunc_life. good_knots (knots_x f) (knots_y f)"
  shows "\<exists>cFunc' cFunc_life'.
           life_cycle_loop g constrained a_min as ts (cFunc, cFunc_life) =
             Some (cFunc', cFunc_life') \<and>
           (\<forall>(t, f)\<in>set cFunc_life'. good_knots (knots_x f) (knots_y f))"
  using cFunc dict
proof (induction ts arbitrary: cFunc cFunc_life)
  case Nil
  then show ?case by simp
next
  case (Cons t ts)
  have "policy_ok (Some (spline_call cFunc))"
    using Cons.prems(1) by (simp add: policy_ok_def good_knots_policy)
  from solve_period_good [OF wp this ne sorted pos a_min, of constrained] obtain f where
    f: "solve_period (\<lambda>a. Gothic_C_t g a (spline_call cFunc)) constrained a_min as = Some f"
    and good: "good_knots (knots_x f) (knots_y f)"
    unfolding Gothic_C_t_def by blast
  have "\<forall>(t, f)\<in>set (dict_set cFunc_life t f). good_knots (knots_x f) (knots_y f)"
    using Cons.prems(2) good dict_set_subset [of cFunc_life t f] by auto
  from Cons.IH [OF good this] f show ?case
    by simp
qed

lemma Gothic_C_Tminus1_fun: "Gothic_C_Tminus1 g = (\<lambda>a. implied_consumption g a None)"
  by (rule ext) (simp add: Gothic_C_Tminus1_def)

lemma solve_life_cycle_good:
  assumes wp: "well_posed g"
    and ne: "as \<noteq> []" and sorted: "sorted_wrt (<) as" and pos: "list_all (\<lambda>a. 0 < a) as"
  shows "\<exists>cFunc_life. solve_life_cycle g constrained T as = Some cFunc_life \<and>
           (\<forall>(t, f)\<in>set cFunc_life. good_knots (knots_x f) (knots_y f))"
proof -
  from self_a_min_negative [OF wp] obtain a_min where
    a_min: "self_a_min g = Some a_min" "a_min < 0"
    by blast
  have "policy_ok None"
    by (simp add: policy_ok_def)
  from solve_period_good [OF wp this ne sorted pos a_min(2), of constrained] obtain cFunc where
    cFunc: "solve_period (Gothic_C_Tminus1 g) constrained a_min as = Some cFunc"
    and good: "good_knots (knots_x cFunc) (knots_y cFunc)"
    unfolding Gothic_C_Tminus1_fun by blast
  have "\<forall>(t, f)\<in>set [(T - 1, cFunc)]. good_knots (knots_x f) (knots_y f)"
    using good by simp
  from life_cycle_loop_good [OF wp ne sorted pos a_min(2) good this,
      of constrained "range_down (T - 2) (- 1)"]
  obtain cFunc' cFunc_life where
    "life_cycle_loop g constrained a_min as (range_down (T - 2) (- 1)) (cFunc, [(T - 1, cFunc)])
       = Some (cFunc', cFunc_life)"
    and "\<forall>(t, f)\<in>set cFunc_life. good_knots (knots_x f) (knots_y f)"
    by blast
  then show ?thesis
    by (simp add: solve_life_cycle_def life_cycle_init_def a_min(1) cFunc)
qed

text \<open>
  C2. In a well-posed configuration, for a non-empty and strictly increasing grid of
  positive assets, the solver returns a policy for every period, and in every period the
  sequence of cash-on-hand knots that is passed to the interpolator (the knot at the
  constraint boundary, then \<open>m = c + a\<close> for each grid point in increasing order) has
  one knot more than the grid has points, is strictly increasing, and has no duplicate.
  The policy of each period is solved against the policy of the period after it.
\<close>

theorem cash_on_hand_knots_strictly_increasing:
  assumes "well_posed g"
    and "aVec_eee \<noteq> []" and "sorted_wrt (<) aVec_eee" and "list_all (\<lambda>a. 0 < a) aVec_eee"
  shows "\<exists>cFunc_life. solve_life_cycle g constrained T aVec_eee = Some cFunc_life \<and>
           list_all (\<lambda>(t, cFunc).
               length (knots_x cFunc) = Suc (length aVec_eee) \<and>
               tl (knots_x cFunc) = map2 (+) (tl (knots_y cFunc)) aVec_eee \<and>
               sorted_wrt (<) (knots_x cFunc) \<and> distinct (knots_x cFunc))
             cFunc_life"
proof -
  from solve_life_cycle_good [OF assms, of constrained T] obtain cFunc_life where
    run: "solve_life_cycle g constrained T aVec_eee = Some cFunc_life"
    and good: "\<forall>(t, f)\<in>set cFunc_life. good_knots (knots_x f) (knots_y f)"
    by blast
  have shape: "\<forall>(t, f)\<in>set cFunc_life. length (knots_x f) = Suc (length aVec_eee) \<and>
      tl (knots_x f) = map2 (+) (tl (knots_y f)) aVec_eee"
    using _ run
  proof (rule solve_life_cycle_invariant)
    fix C a_min f
    assume "solve_period C constrained a_min aVec_eee = Some f"
    then have "period_knots C constrained a_min aVec_eee = Some (knots_y f, knots_x f)"
      by (rule solve_period_knots)
    from period_knots_positive_grid [OF this assms(4)]
    show "length (knots_x f) = Suc (length aVec_eee) \<and>
      tl (knots_x f) = map2 (+) (tl (knots_y f)) aVec_eee"
      by simp
  qed
  have "length (knots_x f) = Suc (length aVec_eee) \<and>
      tl (knots_x f) = map2 (+) (tl (knots_y f)) aVec_eee \<and>
      sorted_wrt (<) (knots_x f) \<and> distinct (knots_x f)" if "(t, f) \<in> set cFunc_life" for t f
  proof -
    have s: "sorted_wrt (<) (knots_x f)"
      using good that by (auto simp: good_knots_def)
    then have "distinct (knots_x f)"
      by (simp add: strict_sorted_iff)
    with s shape that show ?thesis
      by blast
  qed
  then have "list_all (\<lambda>(t, cFunc).
               length (knots_x cFunc) = Suc (length aVec_eee) \<and>
               tl (knots_x cFunc) = map2 (+) (tl (knots_y cFunc)) aVec_eee \<and>
               sorted_wrt (<) (knots_x cFunc) \<and> distinct (knots_x cFunc)) cFunc_life"
    by (auto simp: list_all_iff)
  with run show ?thesis
    by blast
qed

theorem cash_on_hand_knots_strictly_increasing_witness:
  "well_posed sample_gothic \<and>
   (\<exists>cFunc_life. solve_life_cycle sample_gothic True 60 [1, 2, 4] = Some cFunc_life \<and>
      list_all (\<lambda>(t, cFunc).
          length (knots_x cFunc) = Suc (length [1, 2, 4 :: real]) \<and>
          tl (knots_x cFunc) = map2 (+) (tl (knots_y cFunc)) [1, 2, 4] \<and>
          sorted_wrt (<) (knots_x cFunc) \<and> distinct (knots_x cFunc))
        cFunc_life)"
proof -
  have grid: "[1, 2, 4 :: real] \<noteq> []" "sorted_wrt (<) [1, 2, 4 :: real]"
    "list_all (\<lambda>a. 0 < a) [1, 2, 4 :: real]"
    by simp_all
  from cash_on_hand_knots_strictly_increasing [OF sample_well_posed grid, of True 60]
    sample_well_posed
  show ?thesis
    by blast
qed

section \<open>The share solver\<close>

lemma argwhere_first_SomeD:
  assumes "argwhere_first bs = Some i"
  shows "i < length bs" and "bs ! i"
  using assms
  by (induction bs arbitrary: i) (auto split: if_splits)

lemma argwhere_first_exists:
  assumes "i < length bs" and "bs ! i"
  shows "\<exists>j. argwhere_first bs = Some j"
  using assms
proof (induction bs arbitrary: i)
  case Nil
  then show ?case by simp
next
  case (Cons b bs)
  show ?case
  proof (cases b)
    case True
    then show ?thesis by simp
  next
    case False
    with Cons.prems obtain i' where "i = Suc i'"
      by (cases i) auto
    with Cons.prems have "i' < length bs" and "bs ! i'"
      by simp_all
    from Cons.IH [OF this] False show ?thesis
      by auto
  qed
qed

lemma sign_change_exists:
  assumes "2 \<le> length fs" and "\<forall>f\<in>set fs. \<exists>r. f = Finite r"
    and "ge0 (hd fs)" and "le0 (last fs)"
  shows "\<exists>i. Suc i < length fs \<and> le0 (fs ! Suc i) \<and> ge0 (fs ! i)"
  using assms
proof (induction fs)
  case Nil
  then show ?case by simp
next
  case (Cons f0 fs)
  from Cons.prems(1) obtain f1 rest where fs: "fs = f1 # rest"
    by (cases fs) auto
  show ?case
  proof (cases "le0 f1")
    case True
    with Cons.prems(3) show ?thesis
      by (intro exI [of _ 0]) (simp add: fs)
  next
    case False
    from Cons.prems(2) obtain r where r: "f1 = Finite r"
      by (auto simp: fs)
    with False have ge: "ge0 (hd fs)"
      by (simp add: fs)
    have "rest \<noteq> []"
      using Cons.prems(4) False by (auto simp: fs)
    then have len: "2 \<le> length fs"
      by (cases rest) (simp_all add: fs)
    have "le0 (last fs)"
      using Cons.prems(4) by (simp add: fs)
    with Cons.IH [OF len _ ge] Cons.prems(2) obtain i where
      "Suc i < length fs" "le0 (fs ! Suc i)" "ge0 (fs ! i)"
      by auto
    then show ?thesis
      by (intro exI [of _ "Suc i"]) simp
  qed
qed

lemma crossing_nth:
  assumes "Suc i < length fs"
  shows "map2 (\<lambda>hi lo. le0 hi \<and> ge0 lo) (tl fs) (butlast fs) ! i
           = (le0 (fs ! Suc i) \<and> ge0 (fs ! i))"
  using assms by (simp add: nth_tl nth_butlast)

lemma interpolated_share_unit_interval:
  fixes bot_f top_f bot_s top_s :: real
  assumes "0 \<le> bot_f" and "top_f \<le> 0" and "top_f - bot_f \<noteq> 0"
    and "0 \<le> bot_s" "bot_s \<le> 1" "0 \<le> top_s" "top_s \<le> 1"
  shows "0 \<le> (1 - (1 - top_f / (top_f - bot_f))) * bot_s + (1 - top_f / (top_f - bot_f)) * top_s"
    and "(1 - (1 - top_f / (top_f - bot_f))) * bot_s + (1 - top_f / (top_f - bot_f)) * top_s \<le> 1"
proof -
  let ?w = "top_f / (top_f - bot_f)"
  have neg: "top_f - bot_f < 0"
    using assms(1-3) by linarith
  have w0: "0 \<le> ?w"
    using assms(2) neg by (simp add: divide_nonpos_neg)
  have w1: "?w \<le> 1"
    using assms(1) neg by (simp add: neg_divide_le_eq)
  have eq: "(1 - (1 - ?w)) * bot_s + (1 - ?w) * top_s = ?w * bot_s + (1 - ?w) * top_s"
    by simp
  show "0 \<le> (1 - (1 - ?w)) * bot_s + (1 - ?w) * top_s"
    unfolding eq using w0 w1 assms(4,6) by (intro add_nonneg_nonneg mult_nonneg_nonneg) simp_all
  have "?w * bot_s + (1 - ?w) * top_s \<le> ?w * 1 + (1 - ?w) * 1"
    using w0 w1 assms(5,7) by (intro add_mono mult_left_mono) simp_all
  then show "(1 - (1 - ?w)) * bot_s + (1 - ?w) * top_s \<le> 1"
    unfolding eq by simp
qed

lemma find_optimal_share_unit_interval:
  assumes "length FOC_s = length share_girds" and "2 \<le> length share_girds"
    and "\<forall>s\<in>set share_girds. 0 \<le> s \<and> s \<le> 1"
    and "\<forall>f\<in>set FOC_s. \<exists>r. f = Finite r"
    and "\<forall>i. Suc i < length FOC_s \<longrightarrow> \<not> (FOC_s ! i = Finite 0 \<and> FOC_s ! Suc i = Finite 0)"
  shows "\<exists>v. find_optimal_share a share_girds FOC_s = Some v \<and> 0 \<le> v \<and> v \<le> 1"
proof -
  have ne: "FOC_s \<noteq> []"
    using assms(1,2) by auto
  then have last: "index_last FOC_s = Some (last FOC_s)"
    and first: "index_first FOC_s = Some (hd FOC_s)"
    by (simp_all add: index_last_def index_first_def split: list.splits)
  let ?crossing = "map2 (\<lambda>hi lo. le0 hi \<and> ge0 lo) (tl FOC_s) (butlast FOC_s)"
  consider "a < 0" | "\<not> a < 0" "gt0 (last FOC_s)" | "\<not> a < 0" "\<not> gt0 (last FOC_s)" "lt0 (hd FOC_s)"
    | "\<not> a < 0" "\<not> gt0 (last FOC_s)" "\<not> lt0 (hd FOC_s)"
    by blast
  then show ?thesis
  proof cases
    case 1
    then show ?thesis by (simp add: find_optimal_share_def)
  next
    case 2
    then show ?thesis by (simp add: find_optimal_share_def last)
  next
    case 3
    then show ?thesis by (simp add: find_optimal_share_def last first)
  next
    case 4
    obtain rl where rl: "last FOC_s = Finite rl"
      using assms(4) ne last_in_set by blast
    obtain rh where rh: "hd FOC_s = Finite rh"
      using assms(4) ne hd_in_set by blast
    have le: "le0 (last FOC_s)" and ge: "ge0 (hd FOC_s)"
      using 4 by (simp_all add: rl rh)
    have len: "2 \<le> length FOC_s"
      using assms(1,2) by simp
    from sign_change_exists [OF len assms(4) ge le] obtain i where
      i: "Suc i < length FOC_s" "le0 (FOC_s ! Suc i) \<and> ge0 (FOC_s ! i)"
      by blast
    have "i < length ?crossing"
      using i(1) by simp
    moreover have "?crossing ! i"
      using i(2) by (simp only: crossing_nth [OF i(1)])
    ultimately have "\<exists>j. argwhere_first ?crossing = Some j"
      by (rule argwhere_first_exists)
    then obtain idx where idx: "argwhere_first ?crossing = Some idx"
      by blast
    note found = argwhere_first_SomeD [OF idx]
    have range: "Suc idx < length FOC_s"
      using found(1) by simp
    have cross: "le0 (FOC_s ! Suc idx) \<and> ge0 (FOC_s ! idx)"
      using found(2) by (simp only: crossing_nth [OF range])
    obtain bot_f where bot_f: "FOC_s ! idx = Finite bot_f"
      using assms(4) range by (metis Suc_lessD nth_mem)
    obtain top_f where top_f: "FOC_s ! Suc idx = Finite top_f"
      using assms(4) range by (metis nth_mem)
    have signs: "0 \<le> bot_f" "top_f \<le> 0"
      using cross by (simp_all add: bot_f top_f)
    have "\<not> (bot_f = 0 \<and> top_f = 0)"
      using assms(5) range bot_f top_f by auto
    with signs have diff: "top_f - bot_f \<noteq> 0"
      by linarith
    have bot_s: "0 \<le> share_girds ! idx \<and> share_girds ! idx \<le> 1"
      using assms(1,3) range by (metis Suc_lessD nth_mem)
    have top_s: "0 \<le> share_girds ! Suc idx \<and> share_girds ! Suc idx \<le> 1"
      using assms(1,3) range by (metis nth_mem)
    let ?alpha = "1 - top_f / (top_f - bot_f)"
    let ?v = "(1 - ?alpha) * share_girds ! idx + ?alpha * share_girds ! Suc idx"
    have "find_optimal_share a share_girds FOC_s = Some ?v"
      using 4 diff by (simp add: find_optimal_share_def last first idx bot_f top_f)
    moreover have "0 \<le> ?v" and "?v \<le> 1"
      using interpolated_share_unit_interval [OF signs diff] bot_s top_s by blast+
    ultimately show ?thesis
      by blast
  qed
qed

lemma all_results_the:
  assumes "\<forall>x\<in>set xs. f x \<noteq> None"
  shows "all_results (map f xs) = Some (map (\<lambda>x. the (f x)) xs)"
  using assms by (induction xs) auto

lemma share_solver_unit_interval:
  assumes grid: "2 \<le> length grid" "\<forall>s\<in>set grid. 0 \<le> s \<and> s \<le> 1"
    and real: "\<forall>s\<in>set grid. \<exists>r. Vs s = Some (Finite r)"
    and flat: "\<forall>i. Suc i < length grid \<longrightarrow>
                 \<not> (Vs (grid ! i) = Some (Finite 0) \<and> Vs (grid ! Suc i) = Some (Finite 0))"
  shows "\<exists>v. Option.bind (all_results (map Vs grid)) (find_optimal_share a grid) = Some v \<and>
             0 \<le> v \<and> v \<le> 1 \<and> (a < 0 \<longrightarrow> v = 0)"
proof -
  let ?FOC_s = "map (\<lambda>s. the (Vs s)) grid"
  have all: "all_results (map Vs grid) = Some ?FOC_s"
    using real by (intro all_results_the) auto
  have fin: "\<forall>f\<in>set ?FOC_s. \<exists>r. f = Finite r"
    using real by auto
  have noflat: "\<forall>i. Suc i < length ?FOC_s \<longrightarrow>
      \<not> (?FOC_s ! i = Finite 0 \<and> ?FOC_s ! Suc i = Finite 0)"
  proof (intro allI impI)
    fix i
    assume i: "Suc i < length ?FOC_s"
    then have mem: "grid ! i \<in> set grid" "grid ! Suc i \<in> set grid"
      by simp_all
    from real mem obtain r r' where r: "Vs (grid ! i) = Some (Finite r)"
      and r': "Vs (grid ! Suc i) = Some (Finite r')"
      by blast
    have "\<not> (r = 0 \<and> r' = 0)"
      using flat i r r' by auto
    then show "\<not> (?FOC_s ! i = Finite 0 \<and> ?FOC_s ! Suc i = Finite 0)"
      using i r r' by simp
  qed
  from find_optimal_share_unit_interval [OF _ grid fin noflat, of a] obtain v where
    v: "find_optimal_share a grid ?FOC_s = Some v" "0 \<le> v" "v \<le> 1"
    by auto
  have "v = 0" if "a < 0"
    using v(1) that by (simp add: find_optimal_share_def)
  with v all show ?thesis
    by simp
qed

lemma linspace01_unit_interval:
  assumes "linspace01 n = Some grid" and "2 \<le> n"
  shows "2 \<le> length grid" and "\<forall>s\<in>set grid. 0 \<le> s \<and> s \<le> 1"
proof -
  have grid: "grid = map (\<lambda>i. real i / real (nat n - 1)) [0..<nat n]"
    using assms by (auto simp: linspace01_def split: if_splits)
  show "2 \<le> length grid"
    using assms(2) by (simp add: grid)
  show "\<forall>s\<in>set grid. 0 \<le> s \<and> s \<le> 1"
    using assms(2) by (auto simp: grid divide_le_eq)
qed

text \<open>
  Away from a flat first-order condition the solvers stay in the unit interval: on a grid
  of at least two shares in \<open>[0, 1]\<close>, with first-order conditions that are real numbers
  and no two neighbouring ones both zero, they return a share in \<open>[0, 1]\<close>, and the share
  0 for \<open>a < 0\<close>.
\<close>

lemma varsigma_unit_interval:
  assumes "2 \<le> length (varsigma_grids g)" and "\<forall>s\<in>set (varsigma_grids g). 0 \<le> s \<and> s \<le> 1"
  shows "(\<forall>s\<in>set (varsigma_grids g). \<exists>r. Vsigma_Tminus1 g a s = Some (Finite r)) \<Longrightarrow>
         (\<forall>i. Suc i < length (varsigma_grids g) \<longrightarrow>
            \<not> (Vsigma_Tminus1 g a (varsigma_grids g ! i) = Some (Finite 0) \<and>
               Vsigma_Tminus1 g a (varsigma_grids g ! Suc i) = Some (Finite 0))) \<Longrightarrow>
         \<exists>v. varsigma_Tminus1 g a = Some v \<and> 0 \<le> v \<and> v \<le> 1 \<and> (a < 0 \<longrightarrow> v = 0)"
    and "(\<forall>s\<in>set (varsigma_grids g). \<exists>r. Vsigma_t g a s c_prime = Some (Finite r)) \<Longrightarrow>
         (\<forall>i. Suc i < length (varsigma_grids g) \<longrightarrow>
            \<not> (Vsigma_t g a (varsigma_grids g ! i) c_prime = Some (Finite 0) \<and>
               Vsigma_t g a (varsigma_grids g ! Suc i) c_prime = Some (Finite 0))) \<Longrightarrow>
         \<exists>v. varsigma_t g a c_prime = Some v \<and> 0 \<le> v \<and> v \<le> 1 \<and> (a < 0 \<longrightarrow> v = 0)"
  unfolding varsigma_Tminus1_def varsigma_t_def
  using share_solver_unit_interval [OF assms, of "\<lambda>s. Vsigma_Tminus1 g a s" a]
    share_solver_unit_interval [OF assms, of "\<lambda>s. Vsigma_t g a s c_prime" a]
  by simp_all

text \<open>
  C3, at an instance whose risky return equals the riskless one. With \<open>a = 1\<close> and the grid
  of shares \<open>[0, 1]\<close> both first-order conditions are the real number 0: neither corner
  applies, the first pair brackets, and \<open>alpha = 1 - 0/0\<close> is not a number. The solver
  returns no share in \<open>[0, 1]\<close>.
\<close>

theorem varsigma_flat_condition_not_a_number:
  "Vsigma_Tminus1 riskless_gothicMC 1 0 = Some (Finite 0) \<and>
   Vsigma_Tminus1 riskless_gothicMC 1 1 = Some (Finite 0) \<and>
   varsigma_grids riskless_gothicMC = [0, 1] \<and>
   varsigma_Tminus1 riskless_gothicMC 1 = None \<and>
   varsigma_t riskless_gothicMC 1 id = None"
  by (simp add: varsigma_Tminus1_def Vsigma_Tminus1_def varsigma_t_def Vsigma_t_def
      find_optimal_share_def riskless_gothicMC_def sample_simps)

section \<open>The share at zero assets\<close>

lemma all_results_map_Some:
  "all_results (map (\<lambda>x. Some (f x)) xs) = Some (map f xs)"
  by (induction xs) simp_all

lemma find_optimal_share_all_Inf:
  assumes "grid \<noteq> []"
  shows "find_optimal_share 0 grid (map (\<lambda>s. Inf) grid) = Some 1"
  using assms by (simp add: find_optimal_share_def index_last_def last_map)

text \<open>
  C4, as the code has it. At \<open>a = 0\<close> the marginal value of the share is \<open>+\<infinity>\<close> for every
  share, in the last period and in the earlier ones. The share solvers test \<open>a < 0\<close>, which
  fails at zero, and then find the entry for share 1 positive: on every non-empty grid
  of shares they return the share 1 at \<open>a = 0\<close>, not the share 0.
\<close>

theorem zero_assets_share_is_one:
  "Vsigma_Tminus1 g 0 varsigma = Some Inf \<and> Vsigma_t g 0 varsigma c_prime = Some Inf \<and>
   (varsigma_grids g \<noteq> [] \<longrightarrow>
      varsigma_Tminus1 g 0 = Some 1 \<and> varsigma_t g 0 c_prime = Some 1)"
  by (simp add: Vsigma_Tminus1_def Vsigma_t_def varsigma_Tminus1_def varsigma_t_def
      all_results_map_Some find_optimal_share_all_Inf)

theorem zero_assets_share_is_one_witness:
  "varsigma_grids sample_gothicMC \<noteq> [] \<and> Vsigma_Tminus1 sample_gothicMC 0 (1 / 2) = Some Inf \<and>
   varsigma_Tminus1 sample_gothicMC 0 = Some 1 \<and> varsigma_t sample_gothicMC 0 id = Some 1"
proof -
  have grid: "varsigma_grids sample_gothicMC \<noteq> []"
    by (simp add: sample_gothicMC_def)
  with zero_assets_share_is_one [of sample_gothicMC "1 / 2" id] show ?thesis
    by simp
qed

text \<open>On the sample instance both solvers return the share 1 at \<open>a = 0\<close>.\<close>

theorem zero_assets_share_counterexample:
  "varsigma_Tminus1 sample_gothicMC 0 = Some 1 \<and> varsigma_t sample_gothicMC 0 id = Some 1"
  by (simp add: Vsigma_Tminus1_def Vsigma_t_def varsigma_Tminus1_def varsigma_t_def
      find_optimal_share_def sample_gothicMC_def index_last_def)

section \<open>The marginal value of the share\<close>

text \<open>
  C5. For every \<open>a \<noteq> 0\<close> and every share, \<open>Vsigma_Tminus1\<close> is the spec's
  \<open>marginal_value_of_share\<close> without a next-period policy and \<open>Vsigma_t\<close> is the one with
  \<open>c_prime\<close>, the growth factor being the last entry of \<open>Gamma\<close>; both sides are the same
  real number, or both are none.
\<close>

theorem Vsigma_refines_marginal_value_of_share:
  assumes "a \<noteq> 0" and "Gamma g \<noteq> []"
  shows "Vsigma_Tminus1 g a share = marginal_value_of_share g (last (Gamma g)) a share None \<and>
         Vsigma_t g a share c_prime =
           marginal_value_of_share g (last (Gamma g)) a share (Some c_prime)"
  using assms
  by (simp add: Vsigma_Tminus1_def Vsigma_t_def marginal_value_of_share_def index_last_def
      float_div_def portfolio_return_def mult.assoc)

lemma sample_Vsigma_Tminus1: "Vsigma_Tminus1 sample_gothicMC 1 0 = Some (Finite (1 / 2))"
  by (simp add: Vsigma_Tminus1_def sample_simps)

lemma sample_Vsigma_t: "Vsigma_t sample_gothicMC 1 1 id = Some (Finite (1 / 3))"
  by (simp add: Vsigma_t_def sample_simps)

theorem Vsigma_refines_marginal_value_of_share_witness:
  "marginal_value_of_share sample_gothicMC 1 1 0 None = Some (Finite (1 / 2)) \<and>
   marginal_value_of_share sample_gothicMC 1 1 1 (Some id) = Some (Finite (1 / 3))"
proof -
  have a: "(1::real) \<noteq> 0"
    by simp
  have G: "Gamma sample_gothicMC \<noteq> []" and l: "last (Gamma sample_gothicMC) = 1"
    by (simp_all add: sample_gothicMC_def)
  from Vsigma_refines_marginal_value_of_share [OF a G, of 0 id]
    Vsigma_refines_marginal_value_of_share [OF a G, of 1 id]
  show ?thesis
    by (simp add: l sample_Vsigma_Tminus1 sample_Vsigma_t)
qed

section \<open>The first knot of the consumption policy\<close>

lemma self_a_min_value:
  assumes "self_a_min g = Some a_min"
  shows "a_min = - min_list (X (Income g)) * hd (Gamma g) / R g"
  using assms
  by (auto simp: self_a_min_def index_first_def float_div_def
      split: if_splits list.splits Option.bind_splits)

text \<open>
  C6, as the code has it. In every solved period the first knot of the consumption policy
  has consumption 0. Its state \<open>m\<close> is the natural limit
  \<open>self_a_min = -min(theta.X) * PermGroFac[0] / R\<close> under the natural mode; under the
  artificial-at-zero mode (\<open>constrained\<close>) it is 0 when the natural limit is negative and
  the natural limit itself when that is zero or positive, since the code moves the knot to
  0 only \<open>if constrained and self_a_min < 0\<close>.
\<close>

theorem first_knot_at_borrowing_limit:
  assumes "solve_life_cycle g constrained T aVec_eee = Some cFunc_life"
    and "(t, cFunc) \<in> set cFunc_life"
  shows "self_a_min g = Some (- min_list (X (Income g)) * hd (Gamma g) / R g) \<and>
         hd (knots_y cFunc) = 0 \<and>
         hd (knots_x cFunc) =
           (if constrained \<and> - min_list (X (Income g)) * hd (Gamma g) / R g < 0 then 0
            else - min_list (X (Income g)) * hd (Gamma g) / R g)"
proof -
  let ?limit = "- min_list (X (Income g)) * hd (Gamma g) / R g"
  let ?P = "\<lambda>f. hd (knots_y f) = 0 \<and>
                 hd (knots_x f) = (if constrained \<and> ?limit < 0 then 0 else ?limit)"
  have step: "?P f" if "self_a_min g = Some a_min"
    and "solve_period C constrained a_min aVec_eee = Some f" for C a_min f
  proof -
    have "a_min = ?limit"
      using that(1) by (rule self_a_min_value)
    moreover have "period_knots C constrained a_min aVec_eee = Some (knots_y f, knots_x f)"
      using that(2) by (rule solve_period_knots)
    ultimately show ?thesis
      using period_knots_SomeD(1,2) [of C constrained a_min aVec_eee "knots_y f" "knots_x f"]
      by simp
  qed
  have "\<forall>(t, f)\<in>set cFunc_life. ?P f"
    using step assms(1) by (rule solve_life_cycle_invariant)
  then have "?P cFunc"
    using assms(2) by blast
  moreover from assms(1) obtain a_min where "self_a_min g = Some a_min"
    by (auto simp: solve_life_cycle_def life_cycle_init_def split: Option.bind_splits)
  then have "self_a_min g = Some ?limit"
    using self_a_min_value by blast
  ultimately show ?thesis
    by simp
qed

lemma sample_life_cycle_constrained:
  "solve_life_cycle sample_gothic True 2 [1] =
     Some [(1, \<lparr> knots_x = [0, 3], knots_y = [0, 2] \<rparr>),
           (0, \<lparr> knots_x = [0, 7 / 3], knots_y = [0, 4 / 3] \<rparr>)]"
  by (simp add: solve_life_cycle_def life_cycle_init_def solve_period_def period_knots_eq
      gothic_simps)

lemma sample_life_cycle_natural:
  "solve_life_cycle sample_gothic False 2 [1] =
     Some [(1, \<lparr> knots_x = [- 1, 3], knots_y = [0, 2] \<rparr>),
           (0, \<lparr> knots_x = [- 1, 5 / 2], knots_y = [0, 3 / 2] \<rparr>)]"
  by (simp add: solve_life_cycle_def life_cycle_init_def solve_period_def period_knots_eq
      gothic_simps)

lemma loss_life_cycle_constrained:
  "solve_life_cycle loss_gothic True 1 [3] = Some [(0, \<lparr> knots_x = [1, 5], knots_y = [0, 2] \<rparr>)]"
  by (simp add: solve_life_cycle_def life_cycle_init_def solve_period_def period_knots_eq
      gothic_simps)

theorem first_knot_at_borrowing_limit_witness:
  "self_a_min sample_gothic = Some (- 1) \<and>
   hd (knots_y \<lparr> knots_x = [- 1, 5 / 2], knots_y = [0, 3 / 2] \<rparr>) = 0 \<and>
   hd (knots_x \<lparr> knots_x = [- 1, 5 / 2], knots_y = [0, 3 / 2] \<rparr>) = - 1 \<and>
   hd (knots_x \<lparr> knots_x = [0, 7 / 3], knots_y = [0, 4 / 3] \<rparr>) = 0 \<and>
   hd (knots_x \<lparr> knots_x = [1, 5], knots_y = [0, 2] \<rparr>) = 1"
proof -
  have nat: "(0, \<lparr> knots_x = [- 1, 5 / 2], knots_y = [0, 3 / 2] \<rparr>) \<in>
      set [(1, \<lparr> knots_x = [- 1, 3], knots_y = [0, 2] \<rparr>),
           (0, \<lparr> knots_x = [- 1, 5 / 2], knots_y = [0, 3 / 2] \<rparr>)]"
    by simp
  have con: "(0, \<lparr> knots_x = [0, 7 / 3], knots_y = [0, 4 / 3] \<rparr>) \<in>
      set [(1, \<lparr> knots_x = [0, 3], knots_y = [0, 2] \<rparr>),
           (0, \<lparr> knots_x = [0, 7 / 3], knots_y = [0, 4 / 3] \<rparr>)]"
    by simp
  have loss: "(0, \<lparr> knots_x = [1, 5], knots_y = [0, 2] \<rparr>) \<in>
      set [(0, \<lparr> knots_x = [1, 5], knots_y = [0, 2] \<rparr>)]"
    by simp
  from first_knot_at_borrowing_limit [OF sample_life_cycle_natural nat]
    first_knot_at_borrowing_limit [OF sample_life_cycle_constrained con]
    first_knot_at_borrowing_limit [OF loss_life_cycle_constrained loss]
  show ?thesis
    by (simp add: sample_gothic_def loss_gothic_def)
qed

text \<open>
  With an income shock that is a loss of 1 the natural limit is \<open>+1\<close>: the constrained
  solver puts the first knot at \<open>m = 1\<close>, not at \<open>m = 0\<close>.
\<close>

theorem first_knot_at_borrowing_limit_counterexample:
  "solve_life_cycle loss_gothic True 1 [3] =
     Some [(0, \<lparr> knots_x = [1, 5], knots_y = [0, 2] \<rparr>)] \<and>
   self_a_min loss_gothic = Some 1"
  by (simp add: solve_life_cycle_def life_cycle_init_def solve_period_def period_knots_eq
      gothic_simps)

section \<open>Clipped consumption\<close>





section \<open>The structure of the portfolio solution\<close>

lemma sweep_port_eq:
  "sweep_port vs C as (cVec, mVec, vVec) =
     (if \<forall>a\<in>set as. vs a \<noteq> None \<and> C a \<noteq> None
      then Some (cVec @ map (\<lambda>a. min (the (C a)) (the (C a) + a)) as,
                 mVec @ map (\<lambda>a. the (C a) + a) as,
                 vVec @ map (\<lambda>a. the (vs a)) as)
      else None)"
  by (induction as arbitrary: cVec mVec vVec) (auto simp: Let_def split: option.splits)

lemma port_period_knots_SomeD:
  assumes "port_period_knots vs C as = Some (cVec, mVec, vVec)"
  shows "cVec = 0 # map (\<lambda>a. min (the (C a)) (the (C a) + a)) as"
    and "mVec = 0 # map (\<lambda>a. the (C a) + a) as"
    and "vVec = 0 # map (\<lambda>a. the (vs a)) as"
  using assms by (auto simp: port_period_knots_def sweep_port_eq split: if_splits)

text \<open>What one period of the portfolio solver stores.\<close>

lemma port_period_SomeD:
  assumes "port_period vs C as t st = Some st'"
  shows "\<exists>f. cFuncPort_life st' = dict_set (cFuncPort_life st) t f \<and>
             mGridPort_life st' = dict_set (mGridPort_life st) t (knots_x f) \<and>
             cGridPort_life st' = dict_set (cGridPort_life st) t (knots_y f) \<and>
             hd (knots_x f) = 0 \<and> hd (knots_y f) = 0 \<and>
             list_all2 (\<le>) (knots_y f) (knots_x f)"
proof -
  from assms obtain cVec mVec vVec f vf where
    knots: "port_period_knots vs C as = Some (cVec, mVec, vVec)"
    and f: "InterpolatedUnivariateSpline mVec cVec = Some f"
    and st': "st' = \<lparr> cFunc_now = f,
              mGridPort_life = dict_set (mGridPort_life st) t mVec,
              cGridPort_life = dict_set (cGridPort_life st) t cVec,
              varsigmaGrid_life = dict_set (varsigmaGrid_life st) t vVec,
              cFuncPort_life = dict_set (cFuncPort_life st) t f,
              varsigma_life = dict_set (varsigma_life st) t vf \<rparr>"
    by (auto simp: port_period_def split: Option.bind_splits)
  have kf: "knots_x f = mVec" "knots_y f = cVec"
    using f by (auto simp: InterpolatedUnivariateSpline_def split: if_splits)
  have "hd mVec = 0" "hd cVec = 0" "list_all2 (\<le>) cVec mVec"
    using port_period_knots_SomeD(1,2) [OF knots]
    by (simp_all add: list_all2_conv_all_nth nth_Cons')
  then show ?thesis
    by (intro exI [of _ f]) (simp add: st' kf)
qed

lemma port_period_inv:
  assumes "port_period vs C as t st = Some st'" and "port_inv st"
  shows "port_inv st'"
proof -
  from port_period_SomeD [OF assms(1)] obtain f where
    f: "cFuncPort_life st' = dict_set (cFuncPort_life st) t f"
      "mGridPort_life st' = dict_set (mGridPort_life st) t (knots_x f)"
      "cGridPort_life st' = dict_set (cGridPort_life st) t (knots_y f)"
      "hd (knots_x f) = 0 \<and> hd (knots_y f) = 0 \<and> list_all2 (\<le>) (knots_y f) (knots_x f)"
    by blast
  show ?thesis
    unfolding port_inv_def
  proof (intro conjI)
    show "mGridPort_life st' = map (\<lambda>(t, f). (t, knots_x f)) (cFuncPort_life st')"
      using assms(2) by (simp add: f port_inv_def dict_set_map_values)
    show "cGridPort_life st' = map (\<lambda>(t, f). (t, knots_y f)) (cFuncPort_life st')"
      using assms(2) by (simp add: f port_inv_def dict_set_map_values)
    show "\<forall>(t, f)\<in>set (cFuncPort_life st').
        hd (knots_x f) = 0 \<and> hd (knots_y f) = 0 \<and> list_all2 (\<le>) (knots_y f) (knots_x f)"
      using assms(2) f(4) dict_set_subset [of "cFuncPort_life st" t f]
      unfolding f(1) port_inv_def by blast
  qed
qed

lemma port_period_keys:
  assumes "port_period vs C as t st = Some st'" and "t \<notin> fst ` set (cFuncPort_life st)"
  shows "map fst (cFuncPort_life st') = map fst (cFuncPort_life st) @ [t]"
proof -
  from port_period_SomeD [OF assms(1)] obtain f where
    "cFuncPort_life st' = dict_set (cFuncPort_life st) t f"
    by blast
  then show ?thesis
    using assms(2) by (simp add: dict_set_keys_new)
qed

lemma portfolio_loop_append:
  "portfolio_loop g as (ts1 @ ts2) st =
     Option.bind (portfolio_loop g as ts1 st) (portfolio_loop g as ts2)"
  by (induction ts1 arbitrary: st) (simp_all split: option.splits)

lemma portfolio_loop_inv:
  assumes "portfolio_loop g as ts st = Some st'" and "port_inv st"
  shows "port_inv st'"
  using assms
proof (induction ts arbitrary: st)
  case Nil
  then show ?case by simp
next
  case (Cons t ts)
  from Cons.prems(1) obtain st1 where
    one: "port_period (\<lambda>a. varsigma_t g a (spline_call (cFunc_now st)))
             (\<lambda>a. C_t g a (spline_call (cFunc_now st))) as t st = Some st1"
    and rest: "portfolio_loop g as ts st1 = Some st'"
    by (auto split: option.splits)
  from one Cons.prems(2) have "port_inv st1"
    by (rule port_period_inv)
  with rest show ?case
    by (rule Cons.IH)
qed

lemma portfolio_loop_keys:
  assumes "portfolio_loop g as ts st = Some st'"
    and "distinct ts" and "set ts \<inter> fst ` set (cFuncPort_life st) = {}"
  shows "map fst (cFuncPort_life st') = map fst (cFuncPort_life st) @ ts"
  using assms
proof (induction ts arbitrary: st)
  case Nil
  then show ?case by simp
next
  case (Cons t ts)
  from Cons.prems(1) obtain st1 where
    one: "port_period (\<lambda>a. varsigma_t g a (spline_call (cFunc_now st)))
             (\<lambda>a. C_t g a (spline_call (cFunc_now st))) as t st = Some st1"
    and rest: "portfolio_loop g as ts st1 = Some st'"
    by (auto split: option.splits)
  have "t \<notin> fst ` set (cFuncPort_life st)"
    using Cons.prems(3) by auto
  with one have keys: "map fst (cFuncPort_life st1) = map fst (cFuncPort_life st) @ [t]"
    by (rule port_period_keys)
  have "fst ` set (cFuncPort_life st1) = set (map fst (cFuncPort_life st1))"
    by simp
  also have "\<dots> = insert t (fst ` set (cFuncPort_life st))"
    by (simp only: keys) simp
  finally have "set ts \<inter> fst ` set (cFuncPort_life st1) = {}"
    using Cons.prems(2,3) by auto
  with rest Cons.prems(2) have "map fst (cFuncPort_life st') = map fst (cFuncPort_life st1) @ ts"
    by (intro Cons.IH) simp_all
  then show ?case
    by (simp add: keys)
qed

lemma port_empty_inv: "port_inv port_empty"
  by (simp add: port_inv_def port_empty_def)

lemma solve_portfolio_inv:
  assumes "solve_portfolio g T as = Some st"
  shows "port_inv st"
proof -
  from assms obtain st0 where
    first: "port_period (varsigma_Tminus1 g) (C_Tminus1 g) as (T - 1) port_empty = Some st0"
    and loop: "portfolio_loop g as (range_down (T - 2) 0) st0 = Some st"
    by (auto simp: solve_portfolio_def split: Option.bind_splits)
  from first port_empty_inv have "port_inv st0"
    by (rule port_period_inv)
  with loop show ?thesis
    by (rule portfolio_loop_inv)
qed

lemma map_of_map_values:
  "map_of (map (\<lambda>(k, v). (k, h v)) d) k = map_option h (map_of d k)"
  by (induction d) auto

lemma sample_varsigma_Tminus1_2: "varsigma_Tminus1 sample_gothicMC 2 = Some 1"
  by (simp add: varsigma_Tminus1_def Vsigma_Tminus1_def find_optimal_share_def sample_simps)

lemma sample_C_Tminus1_1: "C_Tminus1 sample_gothicMC 1 = Some (3 / 2)"
  by (simp add: C_Tminus1_def sample_Va_Tminus1) (simp add: sample_simps)

lemma sample_C_Tminus1_2: "C_Tminus1 sample_gothicMC 2 = Some (5 / 2)"
  by (simp add: C_Tminus1_def Va_Tminus1_def sample_varsigma_Tminus1_2) (simp add: sample_simps)

lemma sample_portfolio_last:
  "port_period (varsigma_Tminus1 sample_gothicMC) (C_Tminus1 sample_gothicMC) [1, 2] t port_empty =
     Some \<lparr> cFunc_now = \<lparr> knots_x = [0, 5 / 2, 9 / 2], knots_y = [0, 3 / 2, 5 / 2] \<rparr>,
            mGridPort_life = [(t, [0, 5 / 2, 9 / 2])],
            cGridPort_life = [(t, [0, 3 / 2, 5 / 2])],
            varsigmaGrid_life = [(t, [0, 1, 1])],
            cFuncPort_life = [(t, \<lparr> knots_x = [0, 5 / 2, 9 / 2], knots_y = [0, 3 / 2, 5 / 2] \<rparr>)],
            varsigma_life = [(t, \<lparr> knots_x = [5 / 2, 9 / 2], knots_y = [1, 1] \<rparr>)] \<rparr>"
  by (simp add: port_period_def port_period_knots_def sample_varsigma_Tminus1
      sample_varsigma_Tminus1_2 sample_C_Tminus1_1 sample_C_Tminus1_2
      InterpolatedUnivariateSpline_def port_empty_def Let_def)

lemma sample_portfolio_second:
  "port_period
     (\<lambda>a. varsigma_t sample_gothicMC a
        (spline_call \<lparr> knots_x = [0, 5 / 2, 9 / 2], knots_y = [0, 3 / 2, 5 / 2] \<rparr>))
     (\<lambda>a. C_t sample_gothicMC a
        (spline_call \<lparr> knots_x = [0, 5 / 2, 9 / 2], knots_y = [0, 3 / 2, 5 / 2] \<rparr>))
     [1, 2] 1
     \<lparr> cFunc_now = \<lparr> knots_x = [0, 5 / 2, 9 / 2], knots_y = [0, 3 / 2, 5 / 2] \<rparr>,
       mGridPort_life = [(2, [0, 5 / 2, 9 / 2])],
       cGridPort_life = [(2, [0, 3 / 2, 5 / 2])],
       varsigmaGrid_life = [(2, [0, 1, 1])],
       cFuncPort_life = [(2, \<lparr> knots_x = [0, 5 / 2, 9 / 2], knots_y = [0, 3 / 2, 5 / 2] \<rparr>)],
       varsigma_life = [(2, \<lparr> knots_x = [5 / 2, 9 / 2], knots_y = [1, 1] \<rparr>)] \<rparr> =
   Some \<lparr> cFunc_now = \<lparr> knots_x = [0, 15 / 8, 27 / 8], knots_y = [0, 7 / 8, 11 / 8] \<rparr>,
       mGridPort_life = [(2, [0, 5 / 2, 9 / 2]), (1, [0, 15 / 8, 27 / 8])],
       cGridPort_life = [(2, [0, 3 / 2, 5 / 2]), (1, [0, 7 / 8, 11 / 8])],
       varsigmaGrid_life = [(2, [0, 1, 1]), (1, [0, 1, 1])],
       cFuncPort_life = [(2, \<lparr> knots_x = [0, 5 / 2, 9 / 2], knots_y = [0, 3 / 2, 5 / 2] \<rparr>),
                         (1, \<lparr> knots_x = [0, 15 / 8, 27 / 8], knots_y = [0, 7 / 8, 11 / 8] \<rparr>)],
       varsigma_life = [(2, \<lparr> knots_x = [5 / 2, 9 / 2], knots_y = [1, 1] \<rparr>),
                        (1, \<lparr> knots_x = [15 / 8, 27 / 8], knots_y = [1, 1] \<rparr>)] \<rparr>"
  by (simp add: port_period_def port_period_knots_def portfolio_simps Let_def)

lemma sample_portfolio_3:
  "solve_portfolio sample_gothicMC 3 [1, 2] =
   Some \<lparr> cFunc_now = \<lparr> knots_x = [0, 15 / 8, 27 / 8], knots_y = [0, 7 / 8, 11 / 8] \<rparr>,
       mGridPort_life = [(2, [0, 5 / 2, 9 / 2]), (1, [0, 15 / 8, 27 / 8])],
       cGridPort_life = [(2, [0, 3 / 2, 5 / 2]), (1, [0, 7 / 8, 11 / 8])],
       varsigmaGrid_life = [(2, [0, 1, 1]), (1, [0, 1, 1])],
       cFuncPort_life = [(2, \<lparr> knots_x = [0, 5 / 2, 9 / 2], knots_y = [0, 3 / 2, 5 / 2] \<rparr>),
                         (1, \<lparr> knots_x = [0, 15 / 8, 27 / 8], knots_y = [0, 7 / 8, 11 / 8] \<rparr>)],
       varsigma_life = [(2, \<lparr> knots_x = [5 / 2, 9 / 2], knots_y = [1, 1] \<rparr>),
                        (1, \<lparr> knots_x = [15 / 8, 27 / 8], knots_y = [1, 1] \<rparr>)] \<rparr>"
  by (simp add: solve_portfolio_def sample_portfolio_last sample_portfolio_second)

section \<open>The periods of the life-cycle solutions\<close>

lemma life_cycle_after_keys:
  assumes "solve_life_cycle g constrained T as = Some cFunc_life"
  shows "\<exists>cFunc d. life_cycle_after n g constrained T as = Some (cFunc, d) \<and>
           map fst d = (T - 1) # take n (range_down (T - 2) (- 1))"
proof -
  let ?ts = "range_down (T - 2) (- 1)"
  from assms obtain a_min cFunc0 cFunc' where
    init: "life_cycle_init g constrained T as = Some (a_min, cFunc0, [(T - 1, cFunc0)])"
    and loop: "life_cycle_loop g constrained a_min as ?ts (cFunc0, [(T - 1, cFunc0)]) =
                 Some (cFunc', cFunc_life)"
    by (auto simp: solve_life_cycle_def life_cycle_init_def split: Option.bind_splits)
  have "life_cycle_loop g constrained a_min as (take n ?ts @ drop n ?ts)
          (cFunc0, [(T - 1, cFunc0)]) = Some (cFunc', cFunc_life)"
    using loop by simp
  then obtain cFunc d where
    pre: "life_cycle_loop g constrained a_min as (take n ?ts) (cFunc0, [(T - 1, cFunc0)]) =
            Some (cFunc, d)"
    unfolding life_cycle_loop_append by (auto split: Option.bind_splits)
  have "distinct (take n ?ts)"
    by (simp add: range_down_distinct)
  moreover have "set (take n ?ts) \<inter> fst ` set [(T - 1, cFunc0)] = {}"
    using set_take_subset [of n ?ts] by (auto simp: range_down_set)
  ultimately have "map fst d = map fst [(T - 1, cFunc0)] @ take n ?ts"
    using pre by (intro life_cycle_loop_keys)
  then show ?thesis
    using init pre by (simp add: life_cycle_after_def)
qed

lemma life_cycle_keys:
  assumes "solve_life_cycle g constrained T as = Some cFunc_life"
  shows "map fst cFunc_life = (T - 1) # range_down (T - 2) (- 1)"
proof -
  let ?ts = "range_down (T - 2) (- 1)"
  from assms obtain a_min cFunc0 cFunc' where
    loop: "life_cycle_loop g constrained a_min as ?ts (cFunc0, [(T - 1, cFunc0)]) =
                 Some (cFunc', cFunc_life)"
    by (auto simp: solve_life_cycle_def life_cycle_init_def split: Option.bind_splits)
  have "set ?ts \<inter> fst ` set [(T - 1, cFunc0)] = {}"
    by (auto simp: range_down_set)
  with loop range_down_distinct have "map fst cFunc_life = map fst [(T - 1, cFunc0)] @ ?ts"
    by (intro life_cycle_loop_keys)
  then show ?thesis
    by simp
qed

lemma portfolio_after_keys:
  assumes "solve_portfolio g T as = Some st"
  shows "\<exists>st'. portfolio_after n g T as = Some st' \<and>
           map fst (cFuncPort_life st') = (T - 1) # take n (range_down (T - 2) 0)"
proof -
  let ?ts = "range_down (T - 2) 0"
  from assms obtain st0 where
    first: "port_period (varsigma_Tminus1 g) (C_Tminus1 g) as (T - 1) port_empty = Some st0"
    and loop: "portfolio_loop g as ?ts st0 = Some st"
    by (auto simp: solve_portfolio_def split: Option.bind_splits)
  have keys0: "map fst (cFuncPort_life st0) = [T - 1]"
    using port_period_keys [OF first] by (simp add: port_empty_def)
  have "portfolio_loop g as (take n ?ts @ drop n ?ts) st0 = Some st"
    using loop by simp
  then obtain st' where pre: "portfolio_loop g as (take n ?ts) st0 = Some st'"
    unfolding portfolio_loop_append by (auto split: Option.bind_splits)
  have "fst ` set (cFuncPort_life st0) = set (map fst (cFuncPort_life st0))"
    by simp
  then have "fst ` set (cFuncPort_life st0) = {T - 1}"
    by (simp only: keys0) simp
  then have "set (take n ?ts) \<inter> fst ` set (cFuncPort_life st0) = {}"
    using set_take_subset [of n ?ts] by (auto simp: range_down_set)
  moreover have "distinct (take n ?ts)"
    by (simp add: range_down_distinct)
  ultimately have "map fst (cFuncPort_life st') = map fst (cFuncPort_life st0) @ take n ?ts"
    using pre by (intro portfolio_loop_keys)
  then show ?thesis
    using first pre by (simp add: portfolio_after_def keys0)
qed

lemma portfolio_keys:
  assumes "solve_portfolio g T as = Some st"
  shows "map fst (cFuncPort_life st) = (T - 1) # range_down (T - 2) 0"
proof -
  from portfolio_after_keys [OF assms, of "length (range_down (T - 2) 0)"]
  obtain st' where "portfolio_after (length (range_down (T - 2) 0)) g T as = Some st'"
    and "map fst (cFuncPort_life st') = (T - 1) # range_down (T - 2) 0"
    by auto
  moreover have "portfolio_after (length (range_down (T - 2) 0)) g T as = solve_portfolio g T as"
    by (simp add: portfolio_after_def solve_portfolio_def)
  ultimately show ?thesis
    using assms by simp
qed

text \<open>
  C8, as the code has it. When the simple solver has finished, \<open>cFunc_life\<close> holds the
  periods \<open>T - 1, T - 2, \<dots>, 0\<close> in this order of insertion, that is every period from 0
  to \<open>T - 1\<close> when \<open>T \<ge> 1\<close>, and after \<open>n\<close> iterations of the loop it holds the period
  \<open>T - 1\<close> and the first \<open>n\<close> periods of the loop and no other. The portfolio solver
  loops over \<open>range(T - 2, 0, -1)\<close>: when it has finished, \<open>cFuncPort_life\<close> holds the
  periods \<open>T - 1, \<dots>, 1\<close>, in this order, and for \<open>T \<ge> 2\<close> it has no entry for period 0.
\<close>

theorem life_cycle_solution_periods:
  "(solve_life_cycle g constrained T aVec_eee = Some cFunc_life \<longrightarrow>
      map fst cFunc_life = (T - 1) # range_down (T - 2) (- 1) \<and>
      sorted_wrt (>) (map fst cFunc_life) \<and>
      (1 \<le> T \<longrightarrow> fst ` set cFunc_life = {0..T - 1}) \<and>
      (\<forall>n. \<exists>cFunc d. life_cycle_after n g constrained T aVec_eee = Some (cFunc, d) \<and>
             map fst d = (T - 1) # take n (range_down (T - 2) (- 1)))) \<and>
   (solve_portfolio gMC T aVec_eee_big = Some st \<longrightarrow>
      map fst (cFuncPort_life st) = (T - 1) # range_down (T - 2) 0 \<and>
      sorted_wrt (>) (map fst (cFuncPort_life st)) \<and>
      (2 \<le> T \<longrightarrow> fst ` set (cFuncPort_life st) = {1..T - 1}) \<and>
      (\<forall>n. \<exists>st'. portfolio_after n gMC T aVec_eee_big = Some st' \<and>
             map fst (cFuncPort_life st') = (T - 1) # take n (range_down (T - 2) 0)))"
proof (intro conjI impI)
  assume run: "solve_life_cycle g constrained T aVec_eee = Some cFunc_life"
  show keys: "map fst cFunc_life = (T - 1) # range_down (T - 2) (- 1)"
    using run by (rule life_cycle_keys)
  show "sorted_wrt (>) (map fst cFunc_life)"
    using range_down_decreasing [of "T - 2" "- 1"]
    by (auto simp: keys range_down_set)
  show "fst ` set cFunc_life = {0..T - 1}" if "1 \<le> T"
  proof -
    have "fst ` set cFunc_life = set (map fst cFunc_life)"
      by simp
    also have "\<dots> = insert (T - 1) {0..T - 2}"
      by (simp only: keys) (simp add: range_down_set)
    also have "\<dots> = {0..T - 1}"
      using that by auto
    finally show ?thesis .
  qed
  show "\<forall>n. \<exists>cFunc d. life_cycle_after n g constrained T aVec_eee = Some (cFunc, d) \<and>
             map fst d = (T - 1) # take n (range_down (T - 2) (- 1))"
    using life_cycle_after_keys [OF run] by blast
next
  assume run: "solve_portfolio gMC T aVec_eee_big = Some st"
  show keys: "map fst (cFuncPort_life st) = (T - 1) # range_down (T - 2) 0"
    using run by (rule portfolio_keys)
  show "sorted_wrt (>) (map fst (cFuncPort_life st))"
    using range_down_decreasing [of "T - 2" 0]
    by (auto simp: keys range_down_set)
  show "fst ` set (cFuncPort_life st) = {1..T - 1}" if "2 \<le> T"
  proof -
    have "fst ` set (cFuncPort_life st) = set (map fst (cFuncPort_life st))"
      by simp
    also have "\<dots> = insert (T - 1) {1..T - 2}"
      by (simp only: keys) (simp add: range_down_set)
    also have "\<dots> = {1..T - 1}"
      using that by auto
    finally show ?thesis .
  qed
  show "\<forall>n. \<exists>st'. portfolio_after n gMC T aVec_eee_big = Some st' \<and>
             map fst (cFuncPort_life st') = (T - 1) # take n (range_down (T - 2) 0)"
    using portfolio_after_keys [OF run] by blast
qed

theorem life_cycle_solution_periods_witness:
  "solve_life_cycle sample_gothic True 2 [1] \<noteq> None \<and>
   map fst (the (solve_life_cycle sample_gothic True 2 [1])) = [1, 0] \<and>
   solve_portfolio sample_gothicMC 3 [1, 2] \<noteq> None \<and>
   map fst (cFuncPort_life (the (solve_portfolio sample_gothicMC 3 [1, 2]))) = [2, 1] \<and>
   fst ` set (cFuncPort_life (the (solve_portfolio sample_gothicMC 3 [1, 2]))) = {1..2}"
proof -
  note simple = life_cycle_solution_periods
    [of sample_gothic True 2 "[1]" "the (solve_life_cycle sample_gothic True 2 [1])"]
  note port = life_cycle_solution_periods
    [where T = 3 and gMC = sample_gothicMC and aVec_eee_big = "[1, 2]"
       and st = "the (solve_portfolio sample_gothicMC 3 [1, 2])", THEN conjunct2]
  have s: "solve_life_cycle sample_gothic True 2 [1] =
      Some (the (solve_life_cycle sample_gothic True 2 [1]))"
    by (simp add: sample_life_cycle_constrained)
  have p: "solve_portfolio sample_gothicMC 3 [1, 2] =
      Some (the (solve_portfolio sample_gothicMC 3 [1, 2]))"
    by (simp add: sample_portfolio_3)
  have "map fst (the (solve_life_cycle sample_gothic True 2 [1])) = [1, 0]"
    using simple s by simp
  moreover have "map fst (cFuncPort_life (the (solve_portfolio sample_gothicMC 3 [1, 2]))) = [2, 1]"
    using port p by simp
  moreover have "fst ` set (cFuncPort_life (the (solve_portfolio sample_gothicMC 3 [1, 2]))) = {1..2}"
    using port p by simp
  moreover have "solve_life_cycle sample_gothic True 2 [1] \<noteq> None"
    by (simp add: sample_life_cycle_constrained)
  moreover have "solve_portfolio sample_gothicMC 3 [1, 2] \<noteq> None"
    by (simp add: sample_portfolio_3)
  ultimately show ?thesis
    by blast
qed

text \<open>
  With \<open>T = 3\<close> the portfolio solver stores the periods 2 and 1, and none for period 0.
\<close>

theorem life_cycle_solution_periods_counterexample:
  "map_option (map fst \<circ> cFuncPort_life) (solve_portfolio sample_gothicMC 3 [1, 2]) = Some [2, 1]"
  by (simp add: sample_portfolio_3)

section \<open>The multi-exponential grid\<close>

lemma nest_exp_Suc_outer: "nest_exp (Suc n) p = exp (nest_exp n p) - 1"
  by (induction n arbitrary: p) simp_all

lemma nest_exp_strict_mono: "x < y \<Longrightarrow> nest_exp n x < nest_exp n y"
  by (induction n arbitrary: x y) simp_all

lemma nest_exp_pos: "0 < x \<Longrightarrow> 0 < nest_exp n x"
  by (induction n arbitrary: x) simp_all

lemma nest_log_inverse:
  "0 < x \<Longrightarrow> \<exists>g. nest_log n x = Some g \<and> 0 < g \<and> nest_exp n g = x"
proof (induction n arbitrary: x)
  case 0
  then show ?case by simp
next
  case (Suc n)
  have pos: "0 < ln (x + 1)"
    using Suc.prems by simp
  from Suc.IH [OF pos] obtain g where g: "nest_log n (ln (x + 1)) = Some g" "0 < g"
    "nest_exp n g = ln (x + 1)"
    by blast
  have "nest_log (Suc n) x = Some g"
    using Suc.prems g(1) by (simp add: float_log_def)
  moreover have "nest_exp (Suc n) g = x"
    using Suc.prems g(3) by (simp only: nest_exp_Suc_outer) simp
  ultimately show ?case
    using g(2) by blast
qed

lemma fill_points_length:
  "length (snd (fill_points sz tn index js (point, points))) = length points"
  by (induction js arbitrary: point points) simp_all

lemma fill_points_upt:
  assumes "length points = sz" and "1 \<le> j0" and "j0 \<le> sz + 1" and "k < sz"
  shows "snd (fill_points sz tn index [j0..<sz + 1] (point, points)) ! k =
           (if k + j0 \<le> sz
            then nest_exp (tn - 1) (exp (point - real (sz - j0 - k) * index) - 1)
            else points ! k)"
  using assms
proof (induction "sz + 1 - j0" arbitrary: j0 point points)
  case 0
  then have "[j0..<sz + 1] = []" by simp
  then show ?case using 0 by (simp del: upt_Suc)
next
  case (Suc n)
  then have lt: "j0 < sz + 1" by simp
  have upt: "[j0..<sz + 1] = j0 # [Suc j0..<sz + 1]"
    using lt by (simp add: upt_conv_Cons del: upt_Suc)
  let ?points = "points[sz - j0 := nest_exp (tn - 1) (exp point - 1)]"
  have step: "fill_points sz tn index [j0..<sz + 1] (point, points) =
              fill_points sz tn index [Suc j0..<sz + 1] (point - index, ?points)"
    by (simp only: upt fill_points.simps)
  have IH: "snd (fill_points sz tn index [Suc j0..<sz + 1] (point - index, ?points)) ! k =
           (if k + Suc j0 \<le> sz
            then nest_exp (tn - 1) (exp (point - index - real (sz - Suc j0 - k) * index) - 1)
            else ?points ! k)"
    using Suc.hyps(1) [of "Suc j0" ?points "point - index"] Suc.hyps(2) Suc.prems lt
    by (simp del: upt_Suc)
  show ?case
  proof (cases "k + Suc j0 \<le> sz")
    case True
    then have "real (sz - j0 - k) = real (sz - Suc j0 - k) + 1"
      by (simp add: of_nat_diff)
    then have eq: "point - index - real (sz - Suc j0 - k) * index = point - real (sz - j0 - k) * index"
      by (simp add: algebra_simps)
    have "k + j0 \<le> sz"
      using True by simp
    with True IH show ?thesis
      unfolding step eq by (simp only: if_True)
  next
    case False
    show ?thesis
    proof (cases "k + j0 \<le> sz")
      case True
      with False have k: "sz - j0 = k" "sz - j0 - k = 0" by simp_all
      have "?points ! k = nest_exp (tn - 1) (exp point - 1)"
        using Suc.prems(1,4) by (simp add: k)
      with False True IH show ?thesis
        unfolding step by (simp add: k del: upt_Suc)
    next
      case F2: False
      then have "k \<noteq> sz - j0" using lt by arith
      then have "?points ! k = points ! k"
        by simp
      with False F2 IH show ?thesis
        unfolding step by (simp del: upt_Suc)
    qed
  qed
qed

lemma setup_grids_expMult_points:
  assumes "0 < maxval" and "1 \<le> sz" and "1 \<le> tn"
  shows "\<exists>g. 0 < g \<and> nest_exp tn g = maxval \<and>
           setup_grids_expMult minval maxval sz tn =
             Some (map (\<lambda>k. nest_exp tn (g * real (k + 1) / real_of_int sz)) [0..<nat sz])"
proof -
  from nest_log_inverse [OF assms(1), of tn] obtain g where
    g: "nest_log tn maxval = Some g" "0 < g" "nest_exp tn g = maxval"
    by blast
  let ?n = "nat sz"
  let ?index = "g / real_of_int sz"
  let ?res = "snd (fill_points ?n tn ?index [1..<?n + 1] (g, replicate ?n 0))"
  have n: "real ?n = real_of_int sz" "0 < ?n"
    using assms(2) by simp_all
  have tn: "Suc (tn - 1) = tn"
    using assms(3) by simp
  have len: "length ?res = ?n"
    by (simp add: fill_points_length)
  have nth: "?res ! k = nest_exp tn (g * real (k + 1) / real_of_int sz)" if "k < ?n" for k
  proof -
    have "?res ! k = nest_exp (tn - 1) (exp (g - real (?n - 1 - k) * ?index) - 1)"
      using fill_points_upt [of "replicate ?n 0" ?n 1 k tn ?index g] that
      by (simp del: upt_Suc)
    also have "\<dots> = nest_exp (Suc (tn - 1)) (g - real (?n - 1 - k) * ?index)"
      by simp
    also have "g - real (?n - 1 - k) * ?index = g * real (k + 1) / real_of_int sz"
    proof -
      have "real (?n - 1 - k) = real_of_int sz - 1 - real k"
        using that n by (simp add: of_nat_diff)
      then show ?thesis
        using assms(2) by (simp add: field_simps)
    qed
    finally show ?thesis
      by (simp only: tn)
  qed
  have "?res = map (\<lambda>k. nest_exp tn (g * real (k + 1) / real_of_int sz)) [0..<?n]"
  proof (rule nth_equalityI)
    show "length ?res = length (map (\<lambda>k. nest_exp tn (g * real (k + 1) / real_of_int sz)) [0..<?n])"
      by (simp only: len length_map length_upt diff_zero)
  next
    fix i
    assume "i < length ?res"
    then have i: "i < ?n"
      by (simp only: len)
    then show "?res ! i = map (\<lambda>k. nest_exp tn (g * real (k + 1) / real_of_int sz)) [0..<?n] ! i"
      using nth [OF i] i by simp
  qed
  moreover have "setup_grids_expMult minval maxval sz tn = Some ?res"
    using assms(2) g(1) by (simp add: setup_grids_expMult_def del: upt_Suc)
  ultimately show ?thesis
    using g(2,3) by auto
qed

text \<open>
  C9. For every \<open>maxval > 0\<close> and every integer \<open>size \<ge> 1\<close>,
  \<open>setup_grids_expMult(minval, maxval, size)\<close>, with the default \<open>timestonest = 20\<close>,
  returns exactly \<open>size\<close> points; they are strictly increasing and strictly positive,
  and the largest is \<open>maxval\<close>, in exact real arithmetic.
\<close>

theorem setup_grids_expMult_grid:
  assumes "0 < maxval" and "1 \<le> sz"
  shows "\<exists>a_grid. setup_grids_expMult minval maxval sz 20 = Some a_grid \<and>
           int (length a_grid) = sz \<and> sorted_wrt (<) a_grid \<and>
           list_all (\<lambda>a. 0 < a) a_grid \<and> last a_grid = maxval"
proof -
  from setup_grids_expMult_points [OF assms, of 20 minval] obtain g where
    g: "0 < g" "nest_exp 20 g = maxval"
    "setup_grids_expMult minval maxval sz 20 =
       Some (map (\<lambda>k. nest_exp 20 (g * real (k + 1) / real_of_int sz)) [0..<nat sz])"
    by auto
  let ?f = "\<lambda>k. nest_exp 20 (g * real (k + 1) / real_of_int sz)"
  let ?grid = "map ?f [0..<nat sz]"
  have sz: "0 < real_of_int sz"
    using assms(2) by simp
  have mono: "?f j < ?f k" if "j < k" for j k
  proof (rule nest_exp_strict_mono)
    have "real (j + 1) < real (k + 1)"
      using that by simp
    then have "g * real (j + 1) < g * real (k + 1)"
      using g(1) by simp
    then show "g * real (j + 1) / real_of_int sz < g * real (k + 1) / real_of_int sz"
      using sz by (simp add: divide_strict_right_mono)
  qed
  have "sorted_wrt (<) ?grid"
    unfolding sorted_wrt_map
  proof (rule sorted_wrt_mono_rel [of _ "(<)"])
    show "sorted_wrt (<) [0..<nat sz]"
      by simp
  qed (rule mono)
  moreover have "list_all (\<lambda>a. 0 < a) ?grid"
    using g(1) sz by (simp add: list_all_iff nest_exp_pos)
  moreover have "last ?grid = maxval"
  proof -
    have ne: "[0..<nat sz] \<noteq> []"
      using assms(2) by simp
    have "last [0..<nat sz] = nat sz - 1"
      using assms(2) by (simp add: last_upt)
    then have "last ?grid = ?f (nat sz - 1)"
      using ne by (simp add: last_map)
    also have "real (nat sz - 1 + 1) = real_of_int sz"
      using assms(2) by simp
    then have "?f (nat sz - 1) = nest_exp 20 g"
      using sz by simp
    finally show ?thesis
      using g(2) by simp
  qed
  moreover have "int (length ?grid) = sz"
    using assms(2) by simp
  ultimately show ?thesis
    using g(3) by blast
qed

theorem setup_grids_expMult_grid_witness:
  "\<exists>a_grid. setup_grids_expMult 0 4 5 20 = Some a_grid \<and>
     int (length a_grid) = 5 \<and> sorted_wrt (<) a_grid \<and>
     list_all (\<lambda>a. 0 < a) a_grid \<and> last a_grid = 4"
proof -
  have "(0::real) < 4" and "(1::int) \<le> 5"
    by simp_all
  then show ?thesis
    by (rule setup_grids_expMult_grid)
qed

section \<open>The knots of the portfolio solver\<close>

text \<open>
  C10. In the portfolio solver the knot sequences stored for a period, \<open>mGridPort_life[t]\<close>
  and \<open>cGridPort_life[t]\<close>, begin with \<open>(m, c) = (0, 0)\<close> and have \<open>c \<le> m\<close> at every
  knot, and they are the knots of the policy \<open>cFuncPort_life[t]\<close>. The solver has no
  constraint mode and never reads the natural borrowing limit: it takes the engine, the
  horizon and the grid only, and clips every \<open>c\<close> to \<open>min(c, m)\<close>.
\<close>

theorem portfolio_knots_clipped:
  assumes "solve_portfolio g T aVec_eee_big = Some st"
    and "map_of (mGridPort_life st) t = Some mVec_port"
    and "map_of (cGridPort_life st) t = Some cVec_port"
  shows "hd mVec_port = 0 \<and> hd cVec_port = 0 \<and> list_all2 (\<le>) cVec_port mVec_port \<and>
         map_of (cFuncPort_life st) t = Some \<lparr> knots_x = mVec_port, knots_y = cVec_port \<rparr>"
proof -
  have inv: "port_inv st"
    using assms(1) by (rule solve_portfolio_inv)
  from assms(2) inv obtain f where f: "map_of (cFuncPort_life st) t = Some f"
    and m: "knots_x f = mVec_port"
    by (auto simp: port_inv_def map_of_map_values)
  from assms(3) inv f have c: "knots_y f = cVec_port"
    by (auto simp: port_inv_def map_of_map_values)
  have "(t, f) \<in> set (cFuncPort_life st)"
    using f by (rule map_of_SomeD)
  with inv have "hd (knots_x f) = 0 \<and> hd (knots_y f) = 0 \<and> list_all2 (\<le>) (knots_y f) (knots_x f)"
    unfolding port_inv_def by blast
  then have knots: "hd mVec_port = 0 \<and> hd cVec_port = 0 \<and> list_all2 (\<le>) cVec_port mVec_port"
    by (simp only: m c)
  have "f = \<lparr> knots_x = mVec_port, knots_y = cVec_port \<rparr>"
    using m c by (cases f) simp
  with f knots show ?thesis
    by (simp only:)
qed

theorem portfolio_knots_clipped_witness:
  "map_of (mGridPort_life (the (solve_portfolio sample_gothicMC 3 [1, 2]))) 1 =
     Some [0, 15 / 8, 27 / 8] \<and>
   map_of (cGridPort_life (the (solve_portfolio sample_gothicMC 3 [1, 2]))) 1 =
     Some [0, 7 / 8, 11 / 8] \<and>
   list_all2 (\<le>) [0, 7 / 8, 11 / 8 :: real] [0, 15 / 8, 27 / 8] \<and>
   map_of (cFuncPort_life (the (solve_portfolio sample_gothicMC 3 [1, 2]))) 1 =
     Some \<lparr> knots_x = [0, 15 / 8, 27 / 8], knots_y = [0, 7 / 8, 11 / 8] \<rparr>"
proof -
  have p: "solve_portfolio sample_gothicMC 3 [1, 2] =
      Some (the (solve_portfolio sample_gothicMC 3 [1, 2]))"
    by (simp add: sample_portfolio_3)
  have m: "map_of (mGridPort_life (the (solve_portfolio sample_gothicMC 3 [1, 2]))) 1 =
     Some [0, 15 / 8, 27 / 8]"
    by (simp add: sample_portfolio_3)
  have c: "map_of (cGridPort_life (the (solve_portfolio sample_gothicMC 3 [1, 2]))) 1 =
     Some [0, 7 / 8, 11 / 8]"
    by (simp add: sample_portfolio_3)
  from portfolio_knots_clipped [OF p m c] m c show ?thesis
    by simp
qed

end
